theory Spec2Isabelle
  imports Complex_Main
begin

section \<open>JavaScript primitives used by the scripts\<close>

text \<open>
  Strings are character lists. The scripts use \<^verbatim>\<open>toLowerCase\<close>, \<^verbatim>\<open>trim\<close>,
  \<^verbatim>\<open>includes\<close> and a few regular expressions; each is written out below for the letters
  \<open>A\<close>-\<open>Z\<close> and for the white-space characters up to U+00FF (tab, line feed, vertical tab,
  form feed, carriage return, space and the no-break space U+00A0), which \<^verbatim>\<open>trim\<close> and the
  class \<^verbatim>\<open>\s\<close> both strip or match.
\<close>

definition upper_letters :: string where
  "upper_letters = ''ABCDEFGHIJKLMNOPQRSTUVWXYZ''"

definition lower_letters :: string where
  "lower_letters = ''abcdefghijklmnopqrstuvwxyz''"

definition digit_chars :: string where
  "digit_chars = ''0123456789''"

text \<open>The character class of the third ratio test in \<^verbatim>\<open>calculateSpamScore\<close>.\<close>

definition special_chars :: string where
  "special_chars = ''!@#$%^&*()_+=[]{}|;:,./<>?'' @ [CHR 0x27, CHR 0x22]"

definition white_space :: string where
  "white_space = [CHR 0x20, CHR 0x09, CHR 0x0A, CHR 0x0B, CHR 0x0C, CHR 0x0D, CHR 0xA0]"

definition line_terminators :: string where
  "line_terminators = [CHR 0x0A, CHR 0x0D]"

definition lower_char :: "char \<Rightarrow> char" where
  "lower_char c = (case map_of (zip upper_letters lower_letters) c of Some d \<Rightarrow> d | None \<Rightarrow> c)"

definition toLowerCase :: "string \<Rightarrow> string" where
  "toLowerCase s = map lower_char s"

definition trim :: "string \<Rightarrow> string" where
  "trim s = rev (dropWhile (\<lambda>c. c \<in> set white_space) (rev (dropWhile (\<lambda>c. c \<in> set white_space) s)))"

fun starts_with :: "string \<Rightarrow> string \<Rightarrow> bool" where
  "starts_with s [] = True"
| "starts_with [] (p # ps) = False"
| "starts_with (c # cs) (p # ps) = (c = p \<and> starts_with cs ps)"

text \<open>\<^verbatim>\<open>s.includes(p)\<close>: \<open>p\<close> occurs in \<open>s\<close> as a contiguous substring.\<close>

fun str_includes :: "string \<Rightarrow> string \<Rightarrow> bool" where
  "str_includes [] p = (p = [])"
| "str_includes (c # cs) p = (starts_with (c # cs) p \<or> str_includes cs p)"

text \<open>\<^verbatim>\<open>(s.match(/[...]/g) || []).length\<close>: the number of characters of \<open>s\<close> in the class.\<close>

definition match_count :: "string \<Rightarrow> string \<Rightarrow> nat" where
  "match_count cls s = length (filter (\<lambda>c. c \<in> set cls) s)"

text \<open>\<^verbatim>\<open>/(.)\1{4,}/.test(s)\<close>: some character other than a line terminator occurs five
  times in a row.\<close>

fun repeated_run :: "string \<Rightarrow> bool" where
  "repeated_run (a # b # c # d # e # rest) =
     ((a \<notin> set line_terminators \<and> a = b \<and> b = c \<and> c = d \<and> d = e)
      \<or> repeated_run (b # c # d # e # rest))"
| "repeated_run s = False"

text \<open>
  The quotient of two lengths as JavaScript computes it: \<open>0 / 0\<close> is \<open>NaN\<close>, a positive
  count over \<open>0\<close> is \<open>Infinity\<close>, and every comparison with \<open>NaN\<close> is false. The finite
  quotients are kept exact; the thresholds \<open>0.3\<close>, \<open>0.2\<close> and \<open>0.1\<close> are the rationals
  \<open>3/10\<close>, \<open>1/5\<close> and \<open>1/10\<close>.
\<close>

datatype number = NaN | Infinity | Finite rat

definition js_divide :: "nat \<Rightarrow> nat \<Rightarrow> number" where
  "js_divide a b =
     (if b = 0 then (if a = 0 then NaN else Infinity) else Finite (of_nat a / of_nat b))"

fun js_greater :: "number \<Rightarrow> rat \<Rightarrow> bool" where
  "js_greater NaN r = False"
| "js_greater Infinity r = True"
| "js_greater (Finite q) r = (q > r)"

section \<open>The contact form controller (contact.js)\<close>

record form_config =
  minMessageLength :: nat
  maxSubmissionsPerHour :: nat
  suspiciousKeywords :: "string list"

definition FORM_CONFIG :: form_config where
  "FORM_CONFIG = \<lparr>
     minMessageLength = 20,
     maxSubmissionsPerHour = 3,
     suspiciousKeywords =
       [''viagra'', ''cialis'', ''casino'', ''poker'', ''lottery'', ''winner'', ''congratulations'',
        ''urgent'', ''act now'', ''limited time'', ''free money'', ''click here'', ''buy now'',
        ''nigerian prince'', ''inheritance'', ''lottery winner'', ''bitcoin'', ''cryptocurrency'']
   \<rparr>"

text \<open>
  The values of the form controls at one moment. The honeypot control may be absent
  from the page (\<open>None\<close>); the code tests for it. The other controls are taken to exist.
\<close>

record form_fields =
  fullName :: string
  organisation :: string
  email :: string
  phone :: string
  message :: string
  consent :: bool
  honeypot :: "string option"

text \<open>The record handed to the remote insert (the fields fixed by the browser are left out).\<close>

datatype form_data =
  Inquiry (full_name: string) (organisation_or_null: "string option") (email_address: string)
    (phone_or_null: "string option") (message_text: string) (consent_given: bool)
    (honeypot_flag: bool) (form_time_spent: int) (spam_score: int)

text \<open>
  The module state: the closed-over variables, the two storage cells the module uses
  (\<^verbatim>\<open>acta_submission_history\<close> in local storage, \<^verbatim>\<open>data-start-time\<close> on the form), the two
  message boxes, and the log of insert calls made to the remote store. Times are the
  milliseconds of \<^verbatim>\<open>Date.now()\<close>; the clock reads of one synchronous run of a handler are taken
  at one instant, which each function receives as \<open>now\<close>. The stored history is kept as the
  list it serialises; the start time is the number that \<^verbatim>\<open>parseInt\<close> reads back from the
  attribute (\<open>None\<close> when the attribute is not set).
\<close>

record contact_state =
  formFields :: form_fields
  isSubmitting :: bool
  submissionHistory :: "int list"
  stored_history :: "int list"
  startTime :: "int option"
  supabaseClient :: bool
  error_text :: string
  error_hidden :: bool
  success_hidden :: bool
  inserted :: "form_data list"

text \<open>How the awaited insert settles: it resolves without an error, resolves with an
  error object carrying a message, or throws an error carrying a message.\<close>

datatype insert_result = Insert_ok | Insert_error string | Insert_threw string

definition showSuccess :: "contact_state \<Rightarrow> contact_state" where
  "showSuccess s = s\<lparr>success_hidden := False, error_hidden := True\<rparr>"

definition showError :: "string option \<Rightarrow> contact_state \<Rightarrow> contact_state" where
  "showError customMessage s =
     s\<lparr>error_text := (case customMessage of Some m \<Rightarrow> m | None \<Rightarrow> error_text s),
       error_hidden := False, success_hidden := True\<rparr>"

definition setSubmittingState :: "bool \<Rightarrow> contact_state \<Rightarrow> contact_state" where
  "setSubmittingState submitting s = s\<lparr>isSubmitting := submitting\<rparr>"

text \<open>\<^verbatim>\<open>resetFormSafely\<close> empties every text control, unticks the checkbox and restarts the
  dwell-time clock.\<close>

definition cleared_fields :: "form_fields \<Rightarrow> form_fields" where
  "cleared_fields f = \<lparr>fullName = [], organisation = [], email = [], phone = [], message = [],
     consent = False, honeypot = map_option (\<lambda>v. []) (honeypot f)\<rparr>"

definition resetFormSafely :: "int \<Rightarrow> contact_state \<Rightarrow> contact_state" where
  "resetFormSafely now s = s\<lparr>formFields := cleared_fields (formFields s), startTime := Some now\<rparr>"

subsection \<open>Anti-spam gates\<close>

text \<open>\<^verbatim>\<open>formFields.honeypot && formFields.honeypot.value.trim() !== ''\<close>\<close>

definition honeypot_filled :: "form_fields \<Rightarrow> bool" where
  "honeypot_filled f = (case honeypot f of Some v \<Rightarrow> trim v \<noteq> [] | None \<Rightarrow> False)"

definition checkRateLimit :: "int \<Rightarrow> contact_state \<Rightarrow> bool \<times> contact_state" where
  "checkRateLimit now s =
     (let oneHourAgo = now - (60 * 60 * 1000);
          pruned = filter (\<lambda>timestamp. timestamp > oneHourAgo) (submissionHistory s)
      in if length pruned \<ge> maxSubmissionsPerHour FORM_CONFIG
         then (False, s\<lparr>submissionHistory := pruned\<rparr>)
         else (True, s\<lparr>submissionHistory := pruned @ [now], stored_history := pruned @ [now]\<rparr>))"

definition allText :: "form_fields \<Rightarrow> string" where
  "allText f =
     toLowerCase (message f) @ '' '' @ toLowerCase (fullName f) @ '' '' @ toLowerCase (email f)"

definition containsSuspiciousContent :: "form_fields \<Rightarrow> bool" where
  "containsSuspiciousContent f =
     list_ex (\<lambda>keyword. str_includes (allText f) (toLowerCase keyword))
       (suspiciousKeywords FORM_CONFIG)"

definition checkFormTiming :: "int \<Rightarrow> contact_state \<Rightarrow> bool \<times> contact_state" where
  "checkFormTiming now s =
     (case startTime s of
        None \<Rightarrow> (False, s\<lparr>startTime := Some now\<rparr>)
      | Some formStartTime \<Rightarrow>
          (let timeSpent = now - formStartTime; minTime = 2000
           in (timeSpent > minTime, s)))"

definition passAntiSpamChecks :: "int \<Rightarrow> contact_state \<Rightarrow> bool \<times> contact_state" where
  "passAntiSpamChecks now s =
     (if honeypot_filled (formFields s)
      then (False, showError (Some ''Submission blocked due to suspicious activity.'') s)
      else let (underLimit, s1) = checkRateLimit now s in
        if \<not> underLimit
        then (False, showError (Some ''Too many submissions. Please wait before submitting again.'') s1)
        else if containsSuspiciousContent (formFields s1)
        then (False, showError (Some ''Your message contains content that appears to be spam.'') s1)
        else let (slowEnough, s2) = checkFormTiming now s1 in
          if \<not> slowEnough
          then (False, showError (Some ''Please take your time to fill out the form properly.'') s2)
          else (True, s2))"

subsection \<open>The spam score\<close>

text \<open>The \<^verbatim>\<open>forEach\<close> over the denylist: 20 points for every keyword found in the text.\<close>

fun keyword_points :: "string list \<Rightarrow> string \<Rightarrow> int \<Rightarrow> int" where
  "keyword_points [] txt score = score"
| "keyword_points (keyword # rest) txt score =
     keyword_points rest txt
       (if str_includes txt (toLowerCase keyword) then score + 20 else score)"

text \<open>\<^verbatim>\<open>Date.now() - parseInt(startTime || Date.now())\<close>\<close>

definition timeSpent_since :: "int \<Rightarrow> int option \<Rightarrow> int" where
  "timeSpent_since now start = now - (case start of Some t \<Rightarrow> t | None \<Rightarrow> now)"

text \<open>The running total of \<^verbatim>\<open>calculateSpamScore\<close> before the final \<^verbatim>\<open>Math.min\<close>, over a
  given denylist. The message has been lower-cased before the upper-case letters are counted,
  as in the source.\<close>

definition score_before_cap :: "string list \<Rightarrow> int \<Rightarrow> contact_state \<Rightarrow> int" where
  "score_before_cap keywords now s =
     (let msg = toLowerCase (message (formFields s));
          score0 = keyword_points keywords (allText (formFields s)) 0;
          capsRatio = js_divide (match_count upper_letters msg) (length msg);
          score1 = (if js_greater capsRatio (3 / 10) then score0 + 15 else score0);
          numberRatio = js_divide (match_count digit_chars msg) (length msg);
          score2 = (if js_greater numberRatio (2 / 10) then score1 + 10 else score1);
          specialCharRatio = js_divide (match_count special_chars msg) (length msg);
          score3 = (if js_greater specialCharRatio (1 / 10) then score2 + 10 else score2);
          score4 = (if length msg < 30 then score3 + 10 else score3);
          score5 = (if length msg > 1000 then score4 + 15 else score4);
          score6 = (if repeated_run msg then score5 + 20 else score5);
          timeSpent = timeSpent_since now (startTime s);
          score7 = (if timeSpent < 3000 then score6 + 25 else score6);
          score8 = (if timeSpent > 300000 then score7 + 10 else score7)
      in score8)"

definition calculateSpamScore :: "int \<Rightarrow> contact_state \<Rightarrow> int" where
  "calculateSpamScore now s =
     min (score_before_cap (suspiciousKeywords FORM_CONFIG) now s) 100"

subsection \<open>Field validators\<close>

text \<open>Only the verdicts of the validators are modelled, not the inline messages they write;
  the four validated controls and their error slots are taken to exist.\<close>

definition validateRequired :: "string \<Rightarrow> bool" where
  "validateRequired v = (length (trim v) > 0)"

text \<open>\<^verbatim>\<open>/^[^\s@]+@[^\s@]+\.[^\s@]+$/\<close>: no white space, exactly one \<open>@\<close> with something before
  it, and after it a dot that is neither the first nor the last character.\<close>

definition emailRegex_test :: "string \<Rightarrow> bool" where
  "emailRegex_test v =
     (let local_part = takeWhile (\<lambda>c. c \<noteq> CHR ''@'') v;
          domain_part = drop (Suc (length local_part)) v
      in list_all (\<lambda>c. c \<notin> set white_space) v
         \<and> length local_part < length v
         \<and> local_part \<noteq> []
         \<and> CHR ''@'' \<notin> set domain_part
         \<and> length domain_part \<ge> 3
         \<and> CHR ''.'' \<in> set (butlast (tl domain_part)))"

definition validateEmail :: "string \<Rightarrow> bool" where
  "validateEmail v = (length (trim v) > 0 \<and> emailRegex_test (trim v))"

definition validateMessage :: "string \<Rightarrow> bool" where
  "validateMessage v = (length (trim v) \<ge> minMessageLength FORM_CONFIG)"

definition validateConsent :: "bool \<Rightarrow> bool" where
  "validateConsent checked = checked"

definition validateAllFields :: "form_fields \<Rightarrow> bool" where
  "validateAllFields f =
     (validateRequired (fullName f) \<and> validateEmail (email f)
      \<and> validateMessage (message f) \<and> validateConsent (consent f))"

subsection \<open>Submission\<close>

definition or_null :: "string \<Rightarrow> string option" where
  "or_null v = (if v = [] then None else Some v)"

definition prepare_formData :: "int \<Rightarrow> contact_state \<Rightarrow> form_data" where
  "prepare_formData now s =
     (let f = formFields s in
      Inquiry (trim (fullName f)) (or_null (trim (organisation f))) (trim (email f))
        (or_null (trim (phone f))) (trim (message f)) (consent f)
        (honeypot_filled f)
        (timeSpent_since now (startTime s))
        (calculateSpamScore now s))"

text \<open>The outer \<^verbatim>\<open>catch\<close> of \<^verbatim>\<open>handleSubmit\<close>, applied to the message of the error it receives;
  \<open>settled\<close> is the clock when it runs.\<close>

definition outer_catch :: "string \<Rightarrow> int \<Rightarrow> contact_state \<Rightarrow> contact_state" where
  "outer_catch msg settled s =
     (if str_includes msg ''Database error''
      then resetFormSafely settled (showSuccess s)
      else if str_includes msg ''Request timeout''
      then showError (Some ''Request timed out. Please check your connection and try again.'') s
      else if str_includes msg ''Failed to fetch'' \<or> str_includes msg ''NetworkError''
      then showError (Some ''Network error. Please check your connection and try again.'') s
      else if str_includes msg ''CORS''
      then showError (Some ''Connection error. Please try again or contact us directly.'') s
      else if str_includes msg ''TypeError'' \<or> str_includes msg ''ReferenceError''
      then showError (Some ''Browser compatibility issue. Please try refreshing the page or using a different browser.'') s
      else showError None s)"

text \<open>The inner \<^verbatim>\<open>catch\<close> around the insert: it shows success for four kinds of message and
  rethrows every other error to the outer \<^verbatim>\<open>catch\<close>.\<close>

definition inner_catch :: "string \<Rightarrow> int \<Rightarrow> contact_state \<Rightarrow> contact_state" where
  "inner_catch msg settled s =
     (if str_includes msg ''Database error'' \<or> str_includes msg ''Failed to fetch''
         \<or> str_includes msg ''NetworkError'' \<or> str_includes msg ''TypeError''
      then resetFormSafely settled (showSuccess s)
      else outer_catch msg settled s)"

text \<open>
  One run of the submit handler. \<open>now\<close> is the clock at the submit event, \<open>settled\<close> the
  clock when the awaited insert settles, \<open>res\<close> how it settles. The handler runs to its
  \<^verbatim>\<open>finally\<close> block; a second submit event during the wait finds \<open>isSubmitting\<close> set and
  returns at once (the first branch).
\<close>

definition handleSubmit :: "int \<Rightarrow> int \<Rightarrow> insert_result \<Rightarrow> contact_state \<Rightarrow> contact_state" where
  "handleSubmit now settled res s =
     (if isSubmitting s then s
      else let (passed, s1) = passAntiSpamChecks now s in
        if \<not> passed then s1
        else if \<not> validateAllFields (formFields s1) then s1
        else
          let s2 = setSubmittingState True s1;
              formData = prepare_formData now s2;
              s3 = (if supabaseClient s2
                    then (let s2' = s2\<lparr>inserted := inserted s2 @ [formData]\<rparr> in
                          case res of
                            Insert_ok \<Rightarrow> resetFormSafely settled (showSuccess s2')
                          | Insert_error m \<Rightarrow> inner_catch (''Database error: '' @ m) settled s2'
                          | Insert_threw m \<Rightarrow> inner_catch m settled s2')
                    else resetFormSafely settled (showSuccess s2))
          in setSubmittingState False s3)"

subsection \<open>Sample form states\<close>

definition blank_fields :: form_fields where
  "blank_fields = \<lparr>fullName = [], organisation = [], email = [], phone = [], message = [],
     consent = False, honeypot = Some []\<rparr>"

definition enquiry_fields :: form_fields where
  "enquiry_fields = \<lparr>fullName = ''Ann Lee'', organisation = [], email = ''ann@example.org'',
     phone = [], message = ''Please send me a quote for type approval.'', consent = True,
     honeypot = Some []\<rparr>"

text \<open>A freshly loaded page: the form was rendered at time \<open>0\<close>, nothing was submitted before.\<close>

definition fresh_state :: "form_fields \<Rightarrow> contact_state" where
  "fresh_state f = \<lparr>formFields = f, isSubmitting = False, submissionHistory = [],
     stored_history = [], startTime = Some 0, supabaseClient = True,
     error_text = ''There was an error sending your message.'', error_hidden = True,
     success_hidden = True, inserted = []\<rparr>"

text \<open>A form whose decoy field was filled in.\<close>

definition bot_fields :: form_fields where
  "bot_fields = enquiry_fields\<lparr>honeypot := Some ''http://spam.example''\<rparr>"

text \<open>Pages loaded after earlier submissions: the script reads their history from local
  storage when it starts.\<close>

definition returning_state :: contact_state where
  "returning_state = (fresh_state enquiry_fields)
     \<lparr>submissionHistory := [1000, 2000, 3000], stored_history := [1000, 2000, 3000]\<rparr>"

definition lapsing_state :: contact_state where
  "lapsing_state = (fresh_state enquiry_fields)
     \<lparr>submissionHistory := [0, 1, 2], stored_history := [0, 1, 2]\<rparr>"

text \<open>A page with three submissions in the last hour and an older one still in the history.\<close>

definition busy_state :: contact_state where
  "busy_state = (fresh_state enquiry_fields)
     \<lparr>submissionHistory := [500, 1000, 2000, 3000], stored_history := [500, 1000, 2000, 3000]\<rparr>"

text \<open>Messages for the keyword gate: one hit, and a message that reaches the cap with
  and without the word \<open>viagra\<close>.\<close>

definition pills_fields :: form_fields where
  "pills_fields = enquiry_fields\<lparr>message := ''Cheap VIAGRA for you''\<rparr>"

definition stuffed_fields :: form_fields where
  "stuffed_fields = enquiry_fields\<lparr>message := ''cialis casino poker lottery bitcoin viagra''\<rparr>"

definition stuffed_fields_without :: form_fields where
  "stuffed_fields_without = enquiry_fields\<lparr>message := ''cialis casino poker lottery bitcoin ''\<rparr>"

section \<open>The consent manager (consent.js)\<close>

subsection \<open>Values, objects and stored text\<close>

text \<open>
  The values that \<^verbatim>\<open>JSON.parse\<close> can return and \<^verbatim>\<open>JSON.stringify\<close> can write. An object is the
  list of its own properties in insertion order; the code reads a record only by property
  name, and the theorems below look properties up with \<open>map_of\<close>.
\<close>

datatype json = JNull | JBool bool | JNum int | JStr string | JArr "json list"
  | JObj "(string \<times> json) list"

type_synonym js_object = "(string \<times> json) list"

text \<open>Assignment to a property (or \<^verbatim>\<open>setAttribute\<close>): an existing entry is overwritten in
  place, a new one is added at the end.\<close>

fun assign :: "'k \<Rightarrow> 'v \<Rightarrow> ('k \<times> 'v) list \<Rightarrow> ('k \<times> 'v) list" where
  "assign k v [] = [(k, v)]"
| "assign k v (p # ps) = (if fst p = k then (k, v) # ps else p # assign k v ps)"

text \<open>The object literal \<^verbatim>\<open>{ ...a, ...b }\<close>: the properties of \<open>a\<close>, then those of \<open>b\<close> assigned
  one after the other.\<close>

definition spread :: "js_object \<Rightarrow> js_object \<Rightarrow> js_object" where
  "spread a b = fold (\<lambda>(k, v) acc. assign k v acc) b a"

fun index_key :: "nat \<Rightarrow> string" where
  "index_key n =
     (if n < 10 then [digit_chars ! n] else index_key (n div 10) @ [digit_chars ! (n mod 10)])"

declare index_key.simps [simp del]

text \<open>The own enumerable properties that a spread copies from a value: the entries of an
  object, the indexed elements of an array, the indexed characters of a string, and nothing
  for \<^verbatim>\<open>null\<close>, a boolean or a number.\<close>

fun own_properties :: "json \<Rightarrow> js_object" where
  "own_properties (JObj kvs) = kvs"
| "own_properties (JArr xs) = zip (map index_key [0..<length xs]) xs"
| "own_properties (JStr s) = zip (map index_key [0..<length s]) (map (\<lambda>c. JStr [c]) s)"
| "own_properties v = []"

text \<open>\<^verbatim>\<open>checkbox.checked = v\<close> stores the truthiness of \<open>v\<close>; a missing property is
  \<^verbatim>\<open>undefined\<close>.\<close>

fun truthy :: "json option \<Rightarrow> bool" where
  "truthy None = False"
| "truthy (Some JNull) = False"
| "truthy (Some (JBool b)) = b"
| "truthy (Some (JNum n)) = (n \<noteq> 0)"
| "truthy (Some (JStr s)) = (s \<noteq> [])"
| "truthy (Some v) = True"

text \<open>
  A string kept in local storage or in the cookie, described by what \<^verbatim>\<open>JSON.parse\<close> makes
  of it: the empty string, a non-empty string that \<^verbatim>\<open>JSON.parse\<close> rejects with a
  \<^verbatim>\<open>SyntaxError\<close>, or a string that it reads as a value. \<^verbatim>\<open>JSON.stringify\<close> of a value is a
  string that \<^verbatim>\<open>JSON.parse\<close> reads back as that value.
\<close>

datatype stored_text = Empty_text | Not_JSON | JSON_text json

fun JSON_parse :: "stored_text \<Rightarrow> json option" where
  "JSON_parse (JSON_text v) = Some v"
| "JSON_parse t = None"

definition JSON_stringify :: "json \<Rightarrow> stored_text" where
  "JSON_stringify v = JSON_text v"

text \<open>
  The item \<^verbatim>\<open>acta_consent\<close> of local storage (\<open>None\<close> when there is none). Reading and
  writing can throw (storage disabled, quota exceeded); the two flags say whether they work.
  \<open>getItem\<close> and \<open>setItem\<close> return \<open>None\<close> when the call throws.
\<close>

record local_storage =
  item :: "stored_text option"
  readable :: bool
  writable :: bool

definition getItem :: "local_storage \<Rightarrow> stored_text option option" where
  "getItem st = (if readable st then Some (item st) else None)"

definition setItem :: "stored_text \<Rightarrow> local_storage \<Rightarrow> local_storage option" where
  "setItem t st = (if writable st then Some (st\<lparr>item := Some t\<rparr>) else None)"

subsection \<open>The page and the module state\<close>

record script_element =
  attributes :: "(string \<times> string) list"
  textContent :: string

definition getAttribute :: "string \<Rightarrow> script_element \<Rightarrow> string option" where
  "getAttribute name el = map_of (attributes el) name"

text \<open>
  The selector \<^verbatim>\<open>script[type="text/plain"][data-cookie-category]\<close>. In an HTML document the
  value of \<^verbatim>\<open>type\<close> is compared without regard to letter case.
\<close>

definition matches_gated :: "script_element \<Rightarrow> bool" where
  "matches_gated el =
     ((case getAttribute ''type'' el of Some t \<Rightarrow> toLowerCase t = ''text/plain'' | None \<Rightarrow> False)
      \<and> getAttribute ''data-cookie-category'' el \<noteq> None)"

text \<open>
  The closed-over variables of the module, the storage it writes, and the part of the page
  it reads: the script elements in document order, the two checkboxes of the preferences
  dialog (\<open>None\<close> when the page has none) and whether the banner, the dialog and the settings
  button were found. Showing and hiding the banner and the dialog is not modelled.
\<close>

record consent_state =
  currentConsent :: js_object
  localStorage :: local_storage
  cookie :: "stored_text option"
  analyticsCheckbox :: "bool option"
  marketingCheckbox :: "bool option"
  page_scripts :: "script_element list"
  elements_found :: bool

definition initial_consent :: js_object where
  "initial_consent =
     [(''necessary'', JBool True), (''analytics'', JBool False), (''marketing'', JBool False)]"

subsection \<open>Operations\<close>

definition updateConsentUI :: "consent_state \<Rightarrow> consent_state" where
  "updateConsentUI s =
     s\<lparr>analyticsCheckbox :=
         map_option (\<lambda>checked. truthy (map_of (currentConsent s) ''analytics'')) (analyticsCheckbox s),
       marketingCheckbox :=
         map_option (\<lambda>checked. truthy (map_of (currentConsent s) ''marketing'')) (marketingCheckbox s)\<rparr>"

definition loadConsent :: "consent_state \<Rightarrow> consent_state" where
  "loadConsent s =
     updateConsentUI
       (case getItem (localStorage s) of
          None \<Rightarrow> s
        | Some None \<Rightarrow> s
        | Some (Some stored) \<Rightarrow>
            if stored = Empty_text then s
            else (case JSON_parse stored of
                    None \<Rightarrow> s
                  | Some parsed \<Rightarrow>
                      s\<lparr>currentConsent := spread (currentConsent s) (own_properties parsed)\<rparr>))"

definition saveConsent :: "json \<Rightarrow> consent_state \<Rightarrow> consent_state" where
  "saveConsent changes s =
     (let merged = spread (currentConsent s) (own_properties changes);
          s1 = s\<lparr>currentConsent := merged\<rparr>
      in case setItem (JSON_stringify (JObj merged)) (localStorage s1) of
           None \<Rightarrow> s1
         | Some st \<Rightarrow> s1\<lparr>localStorage := st, cookie := Some (JSON_stringify (JObj merged))\<rparr>)"

definition isAllowed :: "js_object \<Rightarrow> string \<Rightarrow> bool" where
  "isAllowed consent_record category =
     (if category = ''necessary'' then True
      else map_of consent_record category = Some (JBool True))"

text \<open>The element that replaces a permitted placeholder: a new script with the same text,
  the type \<^verbatim>\<open>text/javascript\<close>, and every other attribute except the two markers.\<close>

definition newScript :: "script_element \<Rightarrow> script_element" where
  "newScript script =
     \<lparr>attributes =
        fold (\<lambda>(name, v) attrs.
                if name \<noteq> ''type'' \<and> name \<noteq> ''data-cookie-category''
                then assign name v attrs else attrs)
          (attributes script) [(''type'', ''text/javascript'')],
      textContent = textContent script\<rparr>"

text \<open>The body of the \<^verbatim>\<open>forEach\<close> in \<^verbatim>\<open>processGatedScripts\<close>, for one element of the page: a
  placeholder whose category is allowed by the record is replaced, everything else stays.\<close>

definition convert_if_allowed :: "js_object \<Rightarrow> script_element \<Rightarrow> script_element" where
  "convert_if_allowed consent_record script =
     (if matches_gated script
         \<and> (case getAttribute ''data-cookie-category'' script of
              Some category \<Rightarrow> isAllowed consent_record category
            | None \<Rightarrow> False)
      then newScript script else script)"

definition processGatedScripts :: "consent_state \<Rightarrow> consent_state" where
  "processGatedScripts s =
     s\<lparr>page_scripts := map (convert_if_allowed (currentConsent s)) (page_scripts s)\<rparr>"

definition acceptAll :: "consent_state \<Rightarrow> consent_state" where
  "acceptAll s =
     processGatedScripts
       (saveConsent (JObj [(''necessary'', JBool True), (''analytics'', JBool True),
                           (''marketing'', JBool True)]) s)"

definition rejectNonEssential :: "consent_state \<Rightarrow> consent_state" where
  "rejectNonEssential s =
     processGatedScripts
       (saveConsent (JObj [(''necessary'', JBool True), (''analytics'', JBool False),
                           (''marketing'', JBool False)]) s)"

definition savePreferences :: "consent_state \<Rightarrow> consent_state" where
  "savePreferences s =
     processGatedScripts
       (saveConsent
          (JObj [(''necessary'', JBool True),
                 (''analytics'', JBool (case analyticsCheckbox s of Some checked \<Rightarrow> checked | None \<Rightarrow> False)),
                 (''marketing'', JBool (case marketingCheckbox s of Some checked \<Rightarrow> checked | None \<Rightarrow> False))])
          s)"

definition init :: "consent_state \<Rightarrow> consent_state" where
  "init s = (if \<not> elements_found s then s else processGatedScripts (loadConsent s))"

text \<open>
  What can happen to the module after the script has run: the page initialises it, the user
  presses one of the three buttons or ticks a checkbox, another script calls
  \<^verbatim>\<open>ACTAConsent.update\<close> (which is \<^verbatim>\<open>saveConsent\<close>), and, as separate steps, the load and the
  scan that the operations are built from.
\<close>

datatype consent_op =
  Init | Load | Rescan | AcceptAll | RejectNonEssential | SavePreferences
  | Update json | TickAnalytics bool | TickMarketing bool

fun step :: "consent_op \<Rightarrow> consent_state \<Rightarrow> consent_state" where
  "step Init s = init s"
| "step Load s = loadConsent s"
| "step Rescan s = processGatedScripts s"
| "step AcceptAll s = acceptAll s"
| "step RejectNonEssential s = rejectNonEssential s"
| "step SavePreferences s = savePreferences s"
| "step (Update changes) s = saveConsent changes s"
| "step (TickAnalytics b) s = s\<lparr>analyticsCheckbox := map_option (\<lambda>checked. b) (analyticsCheckbox s)\<rparr>"
| "step (TickMarketing b) s = s\<lparr>marketingCheckbox := map_option (\<lambda>checked. b) (marketingCheckbox s)\<rparr>"

fun run :: "consent_op list \<Rightarrow> consent_state \<Rightarrow> consent_state" where
  "run [] s = s"
| "run (op # ops) s = run ops (step op s)"

text \<open>A page as the script finds it when it starts: the compiled-in record, and whatever the
  browser kept from earlier visits.\<close>

definition page_load ::
  "local_storage \<Rightarrow> stored_text option \<Rightarrow> bool option \<Rightarrow> bool option \<Rightarrow> script_element list
    \<Rightarrow> consent_state" where
  "page_load st ck a m scripts =
     \<lparr>currentConsent = initial_consent, localStorage = st, cookie = ck, analyticsCheckbox = a,
      marketingCheckbox = m, page_scripts = scripts, elements_found = True\<rparr>"

subsection \<open>Vocabulary of the consent properties and sample pages\<close>

text \<open>An inert placeholder of the category \<open>marketing\<close>.\<close>

definition marketing_placeholder :: "script_element \<Rightarrow> bool" where
  "marketing_placeholder el =
     (matches_gated el \<and> getAttribute ''data-cookie-category'' el = Some ''marketing'')"

text \<open>Along a sequence of operations, the record never allows \<open>marketing\<close> at the end of a
  step (which is when the step scans the page, if it does).\<close>

fun marketing_denied_during :: "consent_op list \<Rightarrow> consent_state \<Rightarrow> bool" where
  "marketing_denied_during [] s = True"
| "marketing_denied_during (op # ops) s =
     (\<not> isAllowed (currentConsent (step op s)) ''marketing''
      \<and> marketing_denied_during ops (step op s))"

definition stats_placeholder :: script_element where
  "stats_placeholder =
     \<lparr>attributes = [(''type'', ''text/plain''), (''data-cookie-category'', ''analytics'')],
      textContent = ''gtag()''\<rparr>"

definition ads_placeholder :: script_element where
  "ads_placeholder =
     \<lparr>attributes = [(''type'', ''text/plain''), (''data-cookie-category'', ''marketing''),
                    (''id'', ''ads'')],
      textContent = ''loadAds()''\<rparr>"

definition empty_storage :: local_storage where
  "empty_storage = \<lparr>item = None, readable = True, writable = True\<rparr>"

text \<open>A first visit to a page with two placeholders, and the same page after another
  script has pushed \<open>marketing: true\<close> through \<^verbatim>\<open>ACTAConsent.update\<close> (which does not scan).\<close>

definition first_visit :: consent_state where
  "first_visit =
     page_load empty_storage None (Some False) (Some True) [stats_placeholder, ads_placeholder]"

definition pushed_marketing :: consent_state where
  "pushed_marketing = saveConsent (JObj [(''marketing'', JBool True)]) first_visit"

text \<open>A record of the three categories, and the shape every record of the module has: the
  three category properties first, no property twice.\<close>

definition ConsentRecord :: "bool \<Rightarrow> bool \<Rightarrow> bool \<Rightarrow> js_object" where
  "ConsentRecord n a m =
     [(''necessary'', JBool n), (''analytics'', JBool a), (''marketing'', JBool m)]"

definition wellformed_record :: "js_object \<Rightarrow> bool" where
  "wellformed_record r =
     (map fst (take 3 r) = [''necessary'', ''analytics'', ''marketing''] \<and> distinct (map fst r))"

text \<open>A value that, spread over a record, does not set \<open>necessary\<close> to anything but
  \<open>true\<close>; an operation that pushes only such a value; a storage that holds only such a
  value.\<close>

definition keeps_necessary :: "json \<Rightarrow> bool" where
  "keeps_necessary v =
     (case map_of (rev (own_properties v)) ''necessary'' of
        None \<Rightarrow> True
      | Some x \<Rightarrow> x = JBool True)"

fun op_keeps_necessary :: "consent_op \<Rightarrow> bool" where
  "op_keeps_necessary (Update changes) = keeps_necessary changes"
| "op_keeps_necessary op = True"

definition stored_keeps_necessary :: "local_storage \<Rightarrow> bool" where
  "stored_keeps_necessary st =
     (case item st of
        None \<Rightarrow> True
      | Some t \<Rightarrow> (case JSON_parse t of None \<Rightarrow> True | Some v \<Rightarrow> keeps_necessary v))"

text \<open>Pages whose stored item is not a record.\<close>

definition garbled_visit :: consent_state where
  "garbled_visit =
     page_load \<lparr>item = Some Not_JSON, readable = True, writable = True\<rparr> None (Some False)
       (Some False) [ads_placeholder]"

definition null_visit :: consent_state where
  "null_visit =
     page_load \<lparr>item = Some (JSON_text JNull), readable = True, writable = True\<rparr> None
       (Some False) (Some False) [ads_placeholder]"

definition mistyped_visit :: consent_state where
  "mistyped_visit =
     page_load \<lparr>item = Some (JSON_text (JObj [(''analytics'', JStr ''no''), (''marketing'', JNum 1)])),
                readable = True, writable = True\<rparr> None
       (Some False) (Some False) [ads_placeholder]"

definition text_visit :: consent_state where
  "text_visit =
     page_load \<lparr>item = Some (JSON_text (JStr ''yes'')), readable = True, writable = True\<rparr> None
       (Some False) (Some False) [ads_placeholder]"

section \<open>Properties of the contact form controller\<close>

subsection \<open>Substring search and the keyword loop\<close>

lemma starts_with_iff: "starts_with s p \<longleftrightarrow> (\<exists>b. s = p @ b)"
  by (induction s p rule: starts_with.induct) auto

lemma str_includes_iff: "str_includes s p \<longleftrightarrow> (\<exists>a b. s = a @ p @ b)"
proof (induction s)
  case Nil
  then show ?case by simp
next
  case (Cons c cs)
  show ?case
  proof
    assume "str_includes (c # cs) p"
    then consider "starts_with (c # cs) p" | "str_includes cs p" by auto
    then show "\<exists>a b. c # cs = a @ p @ b"
    proof cases
      case 1
      then obtain b where "c # cs = p @ b" using starts_with_iff by blast
      then have "c # cs = [] @ p @ b" by simp
      then show ?thesis by blast
    next
      case 2
      then obtain a b where "cs = a @ p @ b" using Cons.IH by blast
      then have "c # cs = (c # a) @ p @ b" by simp
      then show ?thesis by blast
    qed
  next
    assume "\<exists>a b. c # cs = a @ p @ b"
    then obtain a b where ab: "c # cs = a @ p @ b" by blast
    show "str_includes (c # cs) p"
    proof (cases a)
      case Nil
      with ab have "starts_with (c # cs) p" using starts_with_iff by auto
      then show ?thesis by simp
    next
      case (Cons x a')
      with ab have "cs = a' @ p @ b" by simp
      then have "str_includes cs p" using Cons.IH by blast
      then show ?thesis by simp
    qed
  qed
qed

lemma str_includes_append_left: "str_includes s p \<Longrightarrow> str_includes (s @ t) p"
  unfolding str_includes_iff by (metis append.assoc)

lemma keyword_points_shift: "keyword_points ks txt (a + b) = keyword_points ks txt a + b"
proof (induction ks arbitrary: a)
  case Nil
  then show ?case by simp
next
  case (Cons k ks)
  show ?case
  proof (cases "str_includes txt (toLowerCase k)")
    case True
    have e: "a + b + 20 = (a + 20) + b" by simp
    from True have "keyword_points (k # ks) txt (a + b) = keyword_points ks txt (a + b + 20)"
      by simp
    also have "\<dots> = keyword_points ks txt ((a + 20) + b)"
      by (simp only: e)
    also have "\<dots> = keyword_points ks txt (a + 20) + b"
      by (rule Cons.IH)
    finally show ?thesis using True by simp
  next
    case False
    then show ?thesis using Cons.IH by simp
  qed
qed

lemma keyword_points_ge: "score \<le> keyword_points ks txt score"
proof (induction ks arbitrary: score)
  case Nil
  then show ?case by simp
next
  case (Cons k ks)
  have "score \<le> (if str_includes txt (toLowerCase k) then score + 20 else score)" by simp
  also have "\<dots> \<le> keyword_points ks txt (if str_includes txt (toLowerCase k) then score + 20 else score)"
    by (rule Cons.IH)
  finally show ?case by simp
qed

lemma score_before_cap_ge:
  "keyword_points ks (allText (formFields s)) 0 \<le> score_before_cap ks now s"
  by (simp add: score_before_cap_def Let_def)

lemma score_before_cap_nonneg: "0 \<le> score_before_cap ks now s"
  using keyword_points_ge [of 0 ks "allText (formFields s)"] score_before_cap_ge [of ks s now]
  by linarith

subsection \<open>The spam score stays between 0 and 100\<close>

text \<open>
  C10. For every form state and every clock value, \<^verbatim>\<open>calculateSpamScore\<close> returns a value
  between 0 and 100. The model is a total function, and the one place where the source could
  misbehave is written out: with an empty message the three ratios are \<open>0 / 0\<close>, which is
  \<open>NaN\<close> (no exception), and the comparisons with \<open>NaN\<close> add nothing to the score.
\<close>

theorem spam_score_bounds:
  "0 \<le> calculateSpamScore now s \<and> calculateSpamScore now s \<le> 100
   \<and> (message (formFields s) = [] \<longrightarrow>
        (\<forall>cls. js_divide (match_count cls (toLowerCase (message (formFields s))))
                (length (toLowerCase (message (formFields s)))) = NaN
             \<and> \<not> js_greater NaN (3 / 10)))"
  using score_before_cap_nonneg [of "suspiciousKeywords FORM_CONFIG" now s]
  by (simp add: calculateSpamScore_def js_divide_def match_count_def toLowerCase_def)

theorem spam_score_bounds_witness:
  "message (formFields (fresh_state blank_fields)) = []
   \<and> calculateSpamScore 1000 (fresh_state blank_fields) = 35
   \<and> js_divide (match_count digit_chars (toLowerCase (message (formFields (fresh_state blank_fields)))))
         (length (toLowerCase (message (formFields (fresh_state blank_fields))))) = NaN"
proof -
  have m: "message (formFields (fresh_state blank_fields)) = []"
    by (simp add: fresh_state_def blank_fields_def)
  have v: "calculateSpamScore 1000 (fresh_state blank_fields) = 35"
    by code_simp
  from spam_score_bounds [of 1000 "fresh_state blank_fields"] m v show ?thesis
    by blast
qed

subsection \<open>What the gates leave alone\<close>

lemma checkRateLimit_formFields [simp]: "formFields (snd (checkRateLimit now s)) = formFields s"
  by (simp add: checkRateLimit_def Let_def)

lemma checkRateLimit_startTime [simp]: "startTime (snd (checkRateLimit now s)) = startTime s"
  by (simp add: checkRateLimit_def Let_def)

lemma checkRateLimit_inserted [simp]: "inserted (snd (checkRateLimit now s)) = inserted s"
  by (simp add: checkRateLimit_def Let_def)

lemma checkFormTiming_inserted [simp]: "inserted (snd (checkFormTiming now s)) = inserted s"
  by (simp add: checkFormTiming_def Let_def split: option.splits)

lemma showError_inserted [simp]: "inserted (showError m s) = inserted s"
  by (simp add: showError_def)

lemma passAntiSpamChecks_unfold:
  "passAntiSpamChecks now s =
     (if honeypot_filled (formFields s)
      then (False, showError (Some ''Submission blocked due to suspicious activity.'') s)
      else if \<not> fst (checkRateLimit now s)
      then (False, showError (Some ''Too many submissions. Please wait before submitting again.'')
                     (snd (checkRateLimit now s)))
      else if containsSuspiciousContent (formFields s)
      then (False, showError (Some ''Your message contains content that appears to be spam.'')
                     (snd (checkRateLimit now s)))
      else if \<not> fst (checkFormTiming now (snd (checkRateLimit now s)))
      then (False, showError (Some ''Please take your time to fill out the form properly.'')
                     (snd (checkFormTiming now (snd (checkRateLimit now s)))))
      else (True, snd (checkFormTiming now (snd (checkRateLimit now s)))))"
proof -
  have f: "formFields (snd (checkRateLimit now s)) = formFields s"
    by (simp add: checkRateLimit_def Let_def)
  show ?thesis
    unfolding passAntiSpamChecks_def
    by (cases "checkRateLimit now s"; cases "checkFormTiming now (snd (checkRateLimit now s))")
       (use f in auto)
qed

lemma passAntiSpamChecks_inserted: "inserted (snd (passAntiSpamChecks now s)) = inserted s"
  by (simp add: passAntiSpamChecks_unfold)

lemma checkFormTiming_too_fast:
  "startTime s = Some t0 \<Longrightarrow> now - t0 \<le> 2000 \<Longrightarrow> checkFormTiming now s = (False, s)"
  by (simp add: checkFormTiming_def Let_def)

lemma checkFormTiming_unset:
  "startTime s = None \<Longrightarrow> fst (checkFormTiming now s) = False"
  by (simp add: checkFormTiming_def)

subsection \<open>The dwell-time gate\<close>

text \<open>
  C7. A submit event that comes less than the minimum dwell time (2000 ms in
  \<^verbatim>\<open>checkFormTiming\<close>) after the form was rendered is rejected: \<^verbatim>\<open>checkFormTiming\<close> returns
  false, \<^verbatim>\<open>passAntiSpamChecks\<close> returns false whatever the fields hold, and the handler makes
  no insert call. When the honeypot is empty and the two earlier gates pass, the message
  shown is the one of the timing gate. The field validators run only after the gates, so
  their verdict plays no part.
\<close>

theorem timing_gate_rejects:
  assumes "startTime s = Some t0" and "now - t0 < 2000"
  shows "fst (checkFormTiming now s) = False
     \<and> fst (passAntiSpamChecks now s) = False
     \<and> inserted (handleSubmit now settled res s) = inserted s
     \<and> (\<not> honeypot_filled (formFields s) \<and> fst (checkRateLimit now s)
          \<and> \<not> containsSuspiciousContent (formFields s)
        \<longrightarrow> error_text (snd (passAntiSpamChecks now s))
              = ''Please take your time to fill out the form properly.''
            \<and> error_hidden (snd (passAntiSpamChecks now s)) = False)"
proof -
  from assms have le: "now - t0 \<le> 2000" by simp
  have a: "fst (checkFormTiming now s) = False"
    using checkFormTiming_too_fast [OF assms(1) le] by simp
  have st: "startTime (snd (checkRateLimit now s)) = Some t0"
    using assms(1) by simp
  have t: "checkFormTiming now (snd (checkRateLimit now s)) = (False, snd (checkRateLimit now s))"
    using checkFormTiming_too_fast [OF st le] .
  have b: "fst (passAntiSpamChecks now s) = False"
    using t by (simp add: passAntiSpamChecks_unfold)
  have c: "inserted (handleSubmit now settled res s) = inserted s"
    using b passAntiSpamChecks_inserted [of now s]
    by (auto simp: handleSubmit_def split: prod.splits)
  have d: "\<not> honeypot_filled (formFields s) \<and> fst (checkRateLimit now s)
          \<and> \<not> containsSuspiciousContent (formFields s)
        \<longrightarrow> error_text (snd (passAntiSpamChecks now s))
              = ''Please take your time to fill out the form properly.''
            \<and> error_hidden (snd (passAntiSpamChecks now s)) = False"
    using t by (simp add: passAntiSpamChecks_unfold showError_def)
  from a b c d show ?thesis by blast
qed

theorem timing_gate_rejects_witness:
  "startTime (fresh_state enquiry_fields) = Some 0 \<and> (1500::int) - 0 < 2000
   \<and> \<not> honeypot_filled (formFields (fresh_state enquiry_fields))
   \<and> validateAllFields (formFields (fresh_state enquiry_fields))
   \<and> fst (checkRateLimit 1500 (fresh_state enquiry_fields))
   \<and> \<not> containsSuspiciousContent (formFields (fresh_state enquiry_fields))
   \<and> \<not> isSubmitting (fresh_state enquiry_fields)
   \<and> fst (checkFormTiming 1500 (fresh_state enquiry_fields)) = False
   \<and> fst (passAntiSpamChecks 1500 (fresh_state enquiry_fields)) = False
   \<and> inserted (handleSubmit 1500 1600 Insert_ok (fresh_state enquiry_fields)) = []
   \<and> error_text (snd (passAntiSpamChecks 1500 (fresh_state enquiry_fields)))
        = ''Please take your time to fill out the form properly.''"
proof -
  have h1: "startTime (fresh_state enquiry_fields) = Some 0"
    by (simp add: fresh_state_def)
  have h2: "(1500::int) - 0 < 2000" by simp
  have h3: "\<not> honeypot_filled (formFields (fresh_state enquiry_fields))" by code_simp
  have h4: "validateAllFields (formFields (fresh_state enquiry_fields))" by code_simp
  have h5: "fst (checkRateLimit 1500 (fresh_state enquiry_fields))" by code_simp
  have h6: "\<not> containsSuspiciousContent (formFields (fresh_state enquiry_fields))" by code_simp
  have h7: "\<not> isSubmitting (fresh_state enquiry_fields)" by (simp add: fresh_state_def)
  have h8: "inserted (fresh_state enquiry_fields) = []" by (simp add: fresh_state_def)
  from timing_gate_rejects [OF h1 h2, of 1600 Insert_ok] h1 h2 h3 h4 h5 h6 h7 h8
  show ?thesis by simp
qed

subsection \<open>The rate limit\<close>

lemma checkRateLimit_fst:
  "fst (checkRateLimit now s)
     \<longleftrightarrow> length (filter (\<lambda>t. t > now - 3600000) (submissionHistory s)) < 3"
  by (auto simp: checkRateLimit_def Let_def FORM_CONFIG_def)

lemma checkRateLimit_snd:
  "snd (checkRateLimit now s) =
     (if fst (checkRateLimit now s)
      then s\<lparr>submissionHistory := filter (\<lambda>t. t > now - 3600000) (submissionHistory s) @ [now],
             stored_history := filter (\<lambda>t. t > now - 3600000) (submissionHistory s) @ [now]\<rparr>
      else s\<lparr>submissionHistory := filter (\<lambda>t. t > now - 3600000) (submissionHistory s)\<rparr>)"
  by (auto simp: checkRateLimit_def Let_def FORM_CONFIG_def)

lemma checkRateLimit_pruned:
  "\<forall>t \<in> set (submissionHistory (snd (checkRateLimit now s))). now - 3600000 < t"
  by (auto simp: checkRateLimit_def Let_def)

lemma checkRateLimit_accept:
  assumes "length (filter (\<lambda>t. t > now - 3600000) (submissionHistory s)) < 3"
  shows "checkRateLimit now s =
     (True, s\<lparr>submissionHistory := filter (\<lambda>t. t > now - 3600000) (submissionHistory s) @ [now],
              stored_history := filter (\<lambda>t. t > now - 3600000) (submissionHistory s) @ [now]\<rparr>)"
  using assms by (simp add: checkRateLimit_def Let_def FORM_CONFIG_def)

lemma checkRateLimit_reject:
  assumes "length (filter (\<lambda>t. t > now - 3600000) (submissionHistory s)) \<ge> 3"
  shows "checkRateLimit now s =
     (False, s\<lparr>submissionHistory := filter (\<lambda>t. t > now - 3600000) (submissionHistory s)\<rparr>)"
  using assms by (simp add: checkRateLimit_def Let_def FORM_CONFIG_def)

text \<open>
  C5, as the code has it. With \<open>maxSubmissionsPerHour = 3\<close>, take four attempts at times
  \<open>t1 \<le> t2 \<le> t3 \<le> t4\<close> less than one hour apart that reach the rate-limit gate. Between
  the attempts the rest of the state may change (the states \<open>s1\<close>, \<open>s2\<close>, \<open>s3\<close> only have
  to carry the history the previous attempt left). Whenever \<^verbatim>\<open>checkRateLimit\<close> accepts the
  first three attempts it rejects the fourth, which \<^verbatim>\<open>passAntiSpamChecks\<close> reports with the
  rate-limit message. The first three attempts are accepted when the history the page loaded
  holds no timestamp from the hour before the first attempt (an empty history in
  particular); the history in memory and the copy in local storage are then \<open>[t1]\<close>,
  \<open>[t1, t2]\<close>, \<open>[t1, t2, t3]\<close> after the accepted attempts and are left at that by the
  rejected one. Every call of \<^verbatim>\<open>checkRateLimit\<close>, from any state, leaves in memory only
  timestamps of the last hour; it rewrites the copy in local storage only when it accepts
  (the copy is then the pruned history in memory) and leaves it as it was when it rejects.
  An attempt stopped by the honeypot gate reaches neither copy.
\<close>

theorem rate_limit_four_attempts:
  assumes order: "t1 \<le> t2" "t2 \<le> t3" "t3 \<le> t4"
    and within: "t4 - t1 < 3600000"
    and h1: "submissionHistory s1 = submissionHistory (snd (checkRateLimit t1 s0))"
    and h2: "submissionHistory s2 = submissionHistory (snd (checkRateLimit t2 s1))"
    and h3: "submissionHistory s3 = submissionHistory (snd (checkRateLimit t3 s2))"
  shows "(fst (checkRateLimit t1 s0) \<and> fst (checkRateLimit t2 s1) \<and> fst (checkRateLimit t3 s2)
          \<longrightarrow> \<not> fst (checkRateLimit t4 s3)
            \<and> stored_history (snd (checkRateLimit t4 s3)) = stored_history s3
            \<and> (\<not> honeypot_filled (formFields s3) \<longrightarrow>
                  fst (passAntiSpamChecks t4 s3) = False
                  \<and> error_text (snd (passAntiSpamChecks t4 s3))
                      = ''Too many submissions. Please wait before submitting again.''))
     \<and> ((\<forall>t \<in> set (submissionHistory s0). t \<le> t1 - 3600000)
          \<longrightarrow> fst (checkRateLimit t1 s0) \<and> fst (checkRateLimit t2 s1) \<and> fst (checkRateLimit t3 s2)
            \<and> submissionHistory (snd (checkRateLimit t1 s0)) = [t1]
            \<and> submissionHistory (snd (checkRateLimit t2 s1)) = [t1, t2]
            \<and> submissionHistory (snd (checkRateLimit t3 s2)) = [t1, t2, t3]
            \<and> submissionHistory (snd (checkRateLimit t4 s3)) = [t1, t2, t3]
            \<and> stored_history (snd (checkRateLimit t1 s0)) = [t1]
            \<and> stored_history (snd (checkRateLimit t2 s1)) = [t1, t2]
            \<and> stored_history (snd (checkRateLimit t3 s2)) = [t1, t2, t3])
     \<and> (\<forall>now s.
          (\<forall>t \<in> set (submissionHistory (snd (checkRateLimit now s))). now - 3600000 < t)
          \<and> (fst (checkRateLimit now s) \<longrightarrow>
                stored_history (snd (checkRateLimit now s))
                  = submissionHistory (snd (checkRateLimit now s)))
          \<and> (\<not> fst (checkRateLimit now s) \<longrightarrow>
                stored_history (snd (checkRateLimit now s)) = stored_history s)
          \<and> (honeypot_filled (formFields s) \<longrightarrow>
                submissionHistory (snd (passAntiSpamChecks now s)) = submissionHistory s
                \<and> stored_history (snd (passAntiSpamChecks now s)) = stored_history s))"
proof -
  let ?P = "\<lambda>now t. t > now - (3600000::int)"
  have general: "fst (checkRateLimit t1 s0) \<and> fst (checkRateLimit t2 s1) \<and> fst (checkRateLimit t3 s2)
          \<longrightarrow> \<not> fst (checkRateLimit t4 s3)
            \<and> stored_history (snd (checkRateLimit t4 s3)) = stored_history s3
            \<and> (\<not> honeypot_filled (formFields s3) \<longrightarrow>
                  fst (passAntiSpamChecks t4 s3) = False
                  \<and> error_text (snd (passAntiSpamChecks t4 s3))
                      = ''Too many submissions. Please wait before submitting again.'')"
  proof
    assume acc: "fst (checkRateLimit t1 s0) \<and> fst (checkRateLimit t2 s1) \<and> fst (checkRateLimit t3 s2)"
    have e1: "submissionHistory s1 = filter (?P t1) (submissionHistory s0) @ [t1]"
      using acc h1 by (simp add: checkRateLimit_snd)
    have e2: "submissionHistory s2 = filter (?P t2) (submissionHistory s1) @ [t2]"
      using acc h2 by (simp add: checkRateLimit_snd)
    have e3: "submissionHistory s3 = filter (?P t3) (submissionHistory s2) @ [t3]"
      using acc h3 by (simp add: checkRateLimit_snd)
    have "filter (?P t4) (submissionHistory s3)
        = filter (?P t4) (filter (?P t3) (filter (?P t2) (filter (?P t1) (submissionHistory s0))))
          @ [t1, t2, t3]"
      unfolding e3 e2 e1 using order within by simp
    then have "length (filter (?P t4) (submissionHistory s3)) \<ge> 3" by simp
    then have r4: "\<not> fst (checkRateLimit t4 s3)" by (simp add: checkRateLimit_fst)
    then have st: "stored_history (snd (checkRateLimit t4 s3)) = stored_history s3"
      by (simp add: checkRateLimit_snd)
    have msg: "\<not> honeypot_filled (formFields s3) \<longrightarrow>
          fst (passAntiSpamChecks t4 s3) = False
          \<and> error_text (snd (passAntiSpamChecks t4 s3))
              = ''Too many submissions. Please wait before submitting again.''"
      using r4 by (simp add: passAntiSpamChecks_unfold showError_def)
    from r4 st msg show "\<not> fst (checkRateLimit t4 s3)
            \<and> stored_history (snd (checkRateLimit t4 s3)) = stored_history s3
            \<and> (\<not> honeypot_filled (formFields s3) \<longrightarrow>
                  fst (passAntiSpamChecks t4 s3) = False
                  \<and> error_text (snd (passAntiSpamChecks t4 s3))
                      = ''Too many submissions. Please wait before submitting again.'')"
      by blast
  qed
  have fresh_case: "(\<forall>t \<in> set (submissionHistory s0). t \<le> t1 - 3600000)
          \<longrightarrow> fst (checkRateLimit t1 s0) \<and> fst (checkRateLimit t2 s1) \<and> fst (checkRateLimit t3 s2)
            \<and> submissionHistory (snd (checkRateLimit t1 s0)) = [t1]
            \<and> submissionHistory (snd (checkRateLimit t2 s1)) = [t1, t2]
            \<and> submissionHistory (snd (checkRateLimit t3 s2)) = [t1, t2, t3]
            \<and> submissionHistory (snd (checkRateLimit t4 s3)) = [t1, t2, t3]
            \<and> stored_history (snd (checkRateLimit t1 s0)) = [t1]
            \<and> stored_history (snd (checkRateLimit t2 s1)) = [t1, t2]
            \<and> stored_history (snd (checkRateLimit t3 s2)) = [t1, t2, t3]"
  proof
    assume fresh: "\<forall>t \<in> set (submissionHistory s0). t \<le> t1 - 3600000"
    have f0: "filter (\<lambda>t. t > t1 - 3600000) (submissionHistory s0) = []"
      using fresh by (auto simp: filter_empty_conv)
    have r1: "checkRateLimit t1 s0 = (True, s0\<lparr>submissionHistory := [t1], stored_history := [t1]\<rparr>)"
      using checkRateLimit_accept [of t1 s0] f0 by simp
    have s1: "submissionHistory s1 = [t1]" using h1 r1 by simp
    have f1: "filter (\<lambda>t. t > t2 - 3600000) (submissionHistory s1) = [t1]"
      using s1 order within by simp
    have r2: "checkRateLimit t2 s1
        = (True, s1\<lparr>submissionHistory := [t1, t2], stored_history := [t1, t2]\<rparr>)"
      using checkRateLimit_accept [of t2 s1] f1 by simp
    have s2: "submissionHistory s2 = [t1, t2]" using h2 r2 by simp
    have f2: "filter (\<lambda>t. t > t3 - 3600000) (submissionHistory s2) = [t1, t2]"
      using s2 order within by simp
    have r3: "checkRateLimit t3 s2
        = (True, s2\<lparr>submissionHistory := [t1, t2, t3], stored_history := [t1, t2, t3]\<rparr>)"
      using checkRateLimit_accept [of t3 s2] f2 by simp
    have s3: "submissionHistory s3 = [t1, t2, t3]" using h3 r3 by simp
    have f3: "filter (\<lambda>t. t > t4 - 3600000) (submissionHistory s3) = [t1, t2, t3]"
      using s3 order within by simp
    have r4: "checkRateLimit t4 s3 = (False, s3\<lparr>submissionHistory := [t1, t2, t3]\<rparr>)"
      using checkRateLimit_reject [of t4 s3] f3 by simp
    show "fst (checkRateLimit t1 s0) \<and> fst (checkRateLimit t2 s1) \<and> fst (checkRateLimit t3 s2)
            \<and> submissionHistory (snd (checkRateLimit t1 s0)) = [t1]
            \<and> submissionHistory (snd (checkRateLimit t2 s1)) = [t1, t2]
            \<and> submissionHistory (snd (checkRateLimit t3 s2)) = [t1, t2, t3]
            \<and> submissionHistory (snd (checkRateLimit t4 s3)) = [t1, t2, t3]
            \<and> stored_history (snd (checkRateLimit t1 s0)) = [t1]
            \<and> stored_history (snd (checkRateLimit t2 s1)) = [t1, t2]
            \<and> stored_history (snd (checkRateLimit t3 s2)) = [t1, t2, t3]"
      using r1 r2 r3 r4 by simp
  qed
  have p1: "\<And>now s. \<forall>t \<in> set (submissionHistory (snd (checkRateLimit now s))). now - 3600000 < t"
    using checkRateLimit_pruned by blast
  have p2: "\<And>now s. fst (checkRateLimit now s) \<longrightarrow>
      stored_history (snd (checkRateLimit now s)) = submissionHistory (snd (checkRateLimit now s))"
    by (simp add: checkRateLimit_snd)
  have p3: "\<And>now s. \<not> fst (checkRateLimit now s) \<longrightarrow>
      stored_history (snd (checkRateLimit now s)) = stored_history s"
    by (simp add: checkRateLimit_snd)
  have p4: "\<And>now s. honeypot_filled (formFields s) \<longrightarrow>
      submissionHistory (snd (passAntiSpamChecks now s)) = submissionHistory s
      \<and> stored_history (snd (passAntiSpamChecks now s)) = stored_history s"
    by (simp add: passAntiSpamChecks_unfold showError_def)
  have pr: "\<forall>now s.
          (\<forall>t \<in> set (submissionHistory (snd (checkRateLimit now s))). now - 3600000 < t)
          \<and> (fst (checkRateLimit now s) \<longrightarrow>
                stored_history (snd (checkRateLimit now s))
                  = submissionHistory (snd (checkRateLimit now s)))
          \<and> (\<not> fst (checkRateLimit now s) \<longrightarrow>
                stored_history (snd (checkRateLimit now s)) = stored_history s)
          \<and> (honeypot_filled (formFields s) \<longrightarrow>
                submissionHistory (snd (passAntiSpamChecks now s)) = submissionHistory s
                \<and> stored_history (snd (passAntiSpamChecks now s)) = stored_history s)"
    using p1 p2 p3 p4 by blast
  from general fresh_case pr show ?thesis by blast
qed

theorem rate_limit_four_attempts_witness:
  "fst (checkRateLimit 1000 (fresh_state enquiry_fields))
   \<and> fst (checkRateLimit 2000 (snd (checkRateLimit 1000 (fresh_state enquiry_fields))))
   \<and> fst (checkRateLimit 3000 (snd (checkRateLimit 2000 (snd (checkRateLimit 1000 (fresh_state enquiry_fields))))))
   \<and> \<not> fst (checkRateLimit 3600999 (snd (checkRateLimit 3000 (snd (checkRateLimit 2000 (snd (checkRateLimit 1000 (fresh_state enquiry_fields))))))))
   \<and> stored_history (snd (checkRateLimit 3600999 (snd (checkRateLimit 3000 (snd (checkRateLimit 2000 (snd (checkRateLimit 1000 (fresh_state enquiry_fields))))))))) = [1000, 2000, 3000]
   \<and> error_text (snd (passAntiSpamChecks 3600999 (snd (checkRateLimit 3000 (snd (checkRateLimit 2000 (snd (checkRateLimit 1000 (fresh_state enquiry_fields)))))))))
        = ''Too many submissions. Please wait before submitting again.''
   \<and> stored_history (snd (checkRateLimit 1000 (fresh_state enquiry_fields)))
        = submissionHistory (snd (checkRateLimit 1000 (fresh_state enquiry_fields)))
   \<and> \<not> fst (checkRateLimit 3600600 busy_state)
   \<and> stored_history (snd (checkRateLimit 3600600 busy_state)) = [500, 1000, 2000, 3000]
   \<and> honeypot_filled (formFields (fresh_state bot_fields))
   \<and> stored_history (snd (passAntiSpamChecks 10000 (fresh_state bot_fields))) = []"
proof -
  have fresh: "\<forall>t \<in> set (submissionHistory (fresh_state enquiry_fields)). t \<le> 1000 - 3600000"
    by (simp add: fresh_state_def)
  have hp: "\<not> honeypot_filled (formFields (snd (checkRateLimit 3000 (snd (checkRateLimit 2000 (snd (checkRateLimit 1000 (fresh_state enquiry_fields))))))))"
    by code_simp
  have st: "stored_history (snd (checkRateLimit 3000 (snd (checkRateLimit 2000 (snd (checkRateLimit 1000 (fresh_state enquiry_fields))))))) = [1000, 2000, 3000]"
    by code_simp
  have busy: "\<not> fst (checkRateLimit 3600600 busy_state)" by code_simp
  have busy_st: "stored_history busy_state = [500, 1000, 2000, 3000]"
    by (simp add: busy_state_def)
  have bot: "honeypot_filled (formFields (fresh_state bot_fields))" by code_simp
  have bot_st: "stored_history (fresh_state bot_fields) = []" by (simp add: fresh_state_def)
  note inst = rate_limit_four_attempts [of 1000 2000 3000 3600999
      "snd (checkRateLimit 1000 (fresh_state enquiry_fields))"
      "fresh_state enquiry_fields"
      "snd (checkRateLimit 2000 (snd (checkRateLimit 1000 (fresh_state enquiry_fields))))"
      "snd (checkRateLimit 3000 (snd (checkRateLimit 2000 (snd (checkRateLimit 1000 (fresh_state enquiry_fields))))))"]
  from inst fresh hp st have four:
    "fst (checkRateLimit 1000 (fresh_state enquiry_fields))
     \<and> fst (checkRateLimit 2000 (snd (checkRateLimit 1000 (fresh_state enquiry_fields))))
     \<and> fst (checkRateLimit 3000 (snd (checkRateLimit 2000 (snd (checkRateLimit 1000 (fresh_state enquiry_fields))))))
     \<and> \<not> fst (checkRateLimit 3600999 (snd (checkRateLimit 3000 (snd (checkRateLimit 2000 (snd (checkRateLimit 1000 (fresh_state enquiry_fields))))))))
     \<and> stored_history (snd (checkRateLimit 3600999 (snd (checkRateLimit 3000 (snd (checkRateLimit 2000 (snd (checkRateLimit 1000 (fresh_state enquiry_fields))))))))) = [1000, 2000, 3000]
     \<and> error_text (snd (passAntiSpamChecks 3600999 (snd (checkRateLimit 3000 (snd (checkRateLimit 2000 (snd (checkRateLimit 1000 (fresh_state enquiry_fields)))))))))
          = ''Too many submissions. Please wait before submitting again.''"
    by simp
  from inst have every: "\<forall>now s.
          (\<forall>t \<in> set (submissionHistory (snd (checkRateLimit now s))). now - 3600000 < t)
          \<and> (fst (checkRateLimit now s) \<longrightarrow>
                stored_history (snd (checkRateLimit now s))
                  = submissionHistory (snd (checkRateLimit now s)))
          \<and> (\<not> fst (checkRateLimit now s) \<longrightarrow>
                stored_history (snd (checkRateLimit now s)) = stored_history s)
          \<and> (honeypot_filled (formFields s) \<longrightarrow>
                submissionHistory (snd (passAntiSpamChecks now s)) = submissionHistory s
                \<and> stored_history (snd (passAntiSpamChecks now s)) = stored_history s)"
    by simp
  from four every [rule_format, of 1000 "fresh_state enquiry_fields"]
  have e1: "stored_history (snd (checkRateLimit 1000 (fresh_state enquiry_fields)))
        = submissionHistory (snd (checkRateLimit 1000 (fresh_state enquiry_fields)))"
    by blast
  from busy busy_st every [rule_format, of 3600600 busy_state]
  have e2: "stored_history (snd (checkRateLimit 3600600 busy_state)) = [500, 1000, 2000, 3000]"
    by simp
  from bot bot_st every [rule_format, of 10000 "fresh_state bot_fields"]
  have e3: "stored_history (snd (passAntiSpamChecks 10000 (fresh_state bot_fields))) = []"
    by simp
  from four e1 busy e2 bot e3 show ?thesis by blast
qed

text \<open>
  C5, as the claim states it, fails on pages that load a history. The history is read from
  local storage when the script starts, so a page loaded after three submissions at 1000,
  2000 and 3000 rejects all four attempts made around 600000, the first included. With
  three submissions at 0, 1 and 2, three attempts shortly before the hour is over are
  rejected and a fourth, 200 seconds later, is accepted. A rejected attempt leaves an older
  timestamp in local storage (500, seen from 3600600), and an attempt stopped by the
  honeypot leaves it in memory as well.
\<close>

theorem rate_limit_four_attempts_counterexample:
  "\<not> fst (checkRateLimit 600000 returning_state)
   \<and> \<not> fst (checkRateLimit 600001 (snd (checkRateLimit 600000 returning_state)))
   \<and> \<not> fst (checkRateLimit 600002 (snd (checkRateLimit 600001 (snd (checkRateLimit 600000 returning_state)))))
   \<and> \<not> fst (checkRateLimit 3500000 lapsing_state)
   \<and> \<not> fst (checkRateLimit 3500001 (snd (checkRateLimit 3500000 lapsing_state)))
   \<and> \<not> fst (checkRateLimit 3500002 (snd (checkRateLimit 3500001 (snd (checkRateLimit 3500000 lapsing_state)))))
   \<and> fst (checkRateLimit 3700000 (snd (checkRateLimit 3500002 (snd (checkRateLimit 3500001 (snd (checkRateLimit 3500000 lapsing_state)))))))
   \<and> fst (passAntiSpamChecks 3600600 busy_state) = False
   \<and> stored_history (snd (passAntiSpamChecks 3600600 busy_state)) = [500, 1000, 2000, 3000]
   \<and> (500::int) < 3600600 - 3600000
   \<and> fst (passAntiSpamChecks 3600600 (busy_state\<lparr>formFields := bot_fields\<rparr>)) = False
   \<and> submissionHistory (snd (passAntiSpamChecks 3600600 (busy_state\<lparr>formFields := bot_fields\<rparr>)))
        = [500, 1000, 2000, 3000]"
  by code_simp

subsection \<open>The keyword \<open>viagra\<close>\<close>

lemma if_add_int: "(if c then (x::int) + k else x) = x + (if c then k else 0)"
  by simp

lemma score_before_cap_split:
  "score_before_cap ks now s
     = keyword_points ks (allText (formFields s)) 0 + score_before_cap [] now s"
  unfolding score_before_cap_def Let_def keyword_points.simps
  by (simp only: if_add_int)

lemma toLowerCase_viagra: "toLowerCase ''viagra'' = ''viagra''"
  by (simp add: toLowerCase_def lower_char_def upper_letters_def lower_letters_def)

lemma denylist_without_viagra:
  "suspiciousKeywords FORM_CONFIG = ''viagra'' # removeAll ''viagra'' (suspiciousKeywords FORM_CONFIG)"
  by (simp add: FORM_CONFIG_def)

lemma allText_includes_message:
  "str_includes (toLowerCase (message f)) p \<Longrightarrow> str_includes (allText f) p"
  by (simp add: allText_def str_includes_append_left)

text \<open>
  C6, as the code has it. When the lower-cased message contains \<open>viagra\<close>, the keyword loop
  adds 20 points for that hit: the total before the cap is 20 more than the total over the
  denylist without \<open>viagra\<close>. The returned score is that total capped at 100, so it is at
  least 20, but it need not be 20 above the score of the message without the word.
  \<^verbatim>\<open>containsSuspiciousContent\<close> is true, \<^verbatim>\<open>passAntiSpamChecks\<close> returns false and the handler
  makes no insert call, whatever the other fields and the rest of the state are.
\<close>

theorem viagra_keyword_hit:
  assumes hit: "str_includes (toLowerCase (message (formFields s))) ''viagra''"
  shows "score_before_cap (suspiciousKeywords FORM_CONFIG) now s
           = score_before_cap (removeAll ''viagra'' (suspiciousKeywords FORM_CONFIG)) now s + 20
     \<and> calculateSpamScore now s
           = min (score_before_cap (removeAll ''viagra'' (suspiciousKeywords FORM_CONFIG)) now s + 20) 100
     \<and> 20 \<le> calculateSpamScore now s
     \<and> containsSuspiciousContent (formFields s)
     \<and> fst (passAntiSpamChecks now s) = False
     \<and> inserted (handleSubmit now settled res s) = inserted s"
proof -
  let ?rest = "removeAll ''viagra'' (suspiciousKeywords FORM_CONFIG)"
  let ?txt = "allText (formFields s)"
  have inc: "str_includes ?txt (toLowerCase ''viagra'')"
    using hit allText_includes_message toLowerCase_viagra by simp
  have "keyword_points (''viagra'' # ?rest) ?txt 0 = keyword_points ?rest ?txt (0 + 20)"
    using inc by simp
  also have "\<dots> = keyword_points ?rest ?txt 0 + 20"
    by (rule keyword_points_shift)
  finally have kp: "keyword_points (suspiciousKeywords FORM_CONFIG) ?txt 0
      = keyword_points ?rest ?txt 0 + 20"
    using denylist_without_viagra by simp
  have a: "score_before_cap (suspiciousKeywords FORM_CONFIG) now s
           = score_before_cap ?rest now s + 20"
    using kp score_before_cap_split [of "suspiciousKeywords FORM_CONFIG" now s]
      score_before_cap_split [of ?rest now s] by simp
  have b: "calculateSpamScore now s = min (score_before_cap ?rest now s + 20) 100"
    using a by (simp add: calculateSpamScore_def)
  have c: "20 \<le> calculateSpamScore now s"
    using b score_before_cap_nonneg [of ?rest now s] by simp
  have "''viagra'' \<in> set (suspiciousKeywords FORM_CONFIG)"
    by (simp add: FORM_CONFIG_def)
  then have d: "containsSuspiciousContent (formFields s)"
    using inc unfolding containsSuspiciousContent_def list_ex_iff by blast
  have e: "fst (passAntiSpamChecks now s) = False"
    using d by (simp add: passAntiSpamChecks_unfold)
  have f: "inserted (handleSubmit now settled res s) = inserted s"
    using e passAntiSpamChecks_inserted [of now s]
    by (auto simp: handleSubmit_def split: prod.splits)
  from a b c d e f show ?thesis by blast
qed

theorem viagra_keyword_hit_witness:
  "str_includes (toLowerCase (message (formFields (fresh_state pills_fields)))) ''viagra''
   \<and> validateAllFields pills_fields
   \<and> calculateSpamScore 10000 (fresh_state pills_fields) = 30
   \<and> score_before_cap (removeAll ''viagra'' (suspiciousKeywords FORM_CONFIG)) 10000 (fresh_state pills_fields) = 10
   \<and> containsSuspiciousContent (formFields (fresh_state pills_fields))
   \<and> fst (passAntiSpamChecks 10000 (fresh_state pills_fields)) = False
   \<and> inserted (handleSubmit 10000 10500 Insert_ok (fresh_state pills_fields)) = []"
proof -
  have h: "str_includes (toLowerCase (message (formFields (fresh_state pills_fields)))) ''viagra''"
    by code_simp
  have v: "validateAllFields pills_fields" by code_simp
  have r: "score_before_cap (removeAll ''viagra'' (suspiciousKeywords FORM_CONFIG)) 10000 (fresh_state pills_fields) = 10"
    by code_simp
  have i: "inserted (fresh_state pills_fields) = []" by (simp add: fresh_state_def)
  from viagra_keyword_hit [OF h, of 10000 10500 Insert_ok] h v r i show ?thesis by simp
qed

text \<open>
  C6, as the claim states it, fails at the cap: a message that names five other denylist
  words scores 100 with and without the word \<open>viagra\<close> appended.
\<close>

theorem viagra_raise_counterexample:
  "str_includes (toLowerCase (message stuffed_fields)) ''viagra''
   \<and> message stuffed_fields = message stuffed_fields_without @ ''viagra''
   \<and> calculateSpamScore 10000 (fresh_state stuffed_fields) = 100
   \<and> calculateSpamScore 10000 (fresh_state stuffed_fields_without) = 100
   \<and> \<not> (calculateSpamScore 10000 (fresh_state stuffed_fields)
          \<ge> calculateSpamScore 10000 (fresh_state stuffed_fields_without) + 20)"
  by code_simp

subsection \<open>What a rejected attempt leaves behind\<close>

lemma checkFormTiming_histories [simp]:
  "submissionHistory (snd (checkFormTiming now s)) = submissionHistory s"
  "stored_history (snd (checkFormTiming now s)) = stored_history s"
  "formFields (snd (checkFormTiming now s)) = formFields s"
  by (simp_all add: checkFormTiming_def Let_def split: option.splits)

lemma showError_fields [simp]:
  "submissionHistory (showError m s) = submissionHistory s"
  "stored_history (showError m s) = stored_history s"
  "formFields (showError m s) = formFields s"
  by (simp_all add: showError_def)

text \<open>
  C2, as the code has it. A rejected attempt never touches the form fields and makes no
  insert call. What happens to the submission history depends on the gate that rejects:
  the honeypot gate returns before the history is read; the rate-limit gate prunes the
  history in memory and leaves the stored copy alone; the suspicious-content gate and the
  dwell-time gate run after \<^verbatim>\<open>checkRateLimit\<close> has appended the attempt's timestamp and written
  the history to local storage, so after such a rejection both copies are the pruned
  history followed by the timestamp of the rejected attempt.
\<close>

theorem rejected_attempt_history:
  assumes rejected: "fst (passAntiSpamChecks now s) = False"
  shows "(let s' = snd (passAntiSpamChecks now s);
              pruned = filter (\<lambda>t. t > now - 3600000) (submissionHistory s)
          in formFields s' = formFields s \<and> inserted s' = inserted s
           \<and> (honeypot_filled (formFields s) \<longrightarrow>
                 stored_history s' = stored_history s \<and> submissionHistory s' = submissionHistory s)
           \<and> (\<not> honeypot_filled (formFields s) \<and> \<not> fst (checkRateLimit now s) \<longrightarrow>
                 stored_history s' = stored_history s \<and> submissionHistory s' = pruned)
           \<and> (\<not> honeypot_filled (formFields s) \<and> fst (checkRateLimit now s) \<longrightarrow>
                 (containsSuspiciousContent (formFields s)
                    \<or> \<not> fst (checkFormTiming now (snd (checkRateLimit now s))))
                 \<and> stored_history s' = pruned @ [now] \<and> submissionHistory s' = pruned @ [now]))"
proof -
  have i: "inserted (snd (passAntiSpamChecks now s)) = inserted s"
    by (rule passAntiSpamChecks_inserted)
  have r: "\<not> honeypot_filled (formFields s) \<and> fst (checkRateLimit now s) \<longrightarrow>
      containsSuspiciousContent (formFields s)
        \<or> \<not> fst (checkFormTiming now (snd (checkRateLimit now s)))"
    using rejected by (auto simp: passAntiSpamChecks_unfold split: if_splits)
  show ?thesis
    unfolding Let_def
    using i r by (auto simp: passAntiSpamChecks_unfold checkRateLimit_snd)
qed

theorem rejected_attempt_history_witness:
  "fst (passAntiSpamChecks 10000 (fresh_state bot_fields)) = False
   \<and> honeypot_filled (formFields (fresh_state bot_fields))
   \<and> stored_history (snd (passAntiSpamChecks 10000 (fresh_state bot_fields))) = []
   \<and> fst (passAntiSpamChecks 3600500 busy_state) = False
   \<and> \<not> honeypot_filled (formFields busy_state) \<and> \<not> fst (checkRateLimit 3600500 busy_state)
   \<and> stored_history (snd (passAntiSpamChecks 3600500 busy_state)) = [500, 1000, 2000, 3000]
   \<and> submissionHistory (snd (passAntiSpamChecks 3600500 busy_state)) = [1000, 2000, 3000]
   \<and> fst (passAntiSpamChecks 10000 (fresh_state pills_fields)) = False
   \<and> \<not> honeypot_filled (formFields (fresh_state pills_fields))
   \<and> fst (checkRateLimit 10000 (fresh_state pills_fields))
   \<and> containsSuspiciousContent (formFields (fresh_state pills_fields))
   \<and> stored_history (snd (passAntiSpamChecks 10000 (fresh_state pills_fields))) = [10000]
   \<and> inserted (snd (passAntiSpamChecks 10000 (fresh_state pills_fields))) = []"
proof -
  have b1: "fst (passAntiSpamChecks 10000 (fresh_state bot_fields)) = False" by code_simp
  have b2: "honeypot_filled (formFields (fresh_state bot_fields))" by code_simp
  have b3: "stored_history (fresh_state bot_fields) = []" by (simp add: fresh_state_def)
  have r1: "fst (passAntiSpamChecks 3600500 busy_state) = False" by code_simp
  have r2: "\<not> honeypot_filled (formFields busy_state)" by code_simp
  have r3: "\<not> fst (checkRateLimit 3600500 busy_state)" by code_simp
  have r4: "stored_history busy_state = [500, 1000, 2000, 3000]" by (simp add: busy_state_def)
  have r5: "filter (\<lambda>t. t > 3600500 - 3600000) (submissionHistory busy_state) = [1000, 2000, 3000]"
    by (simp add: busy_state_def)
  have h: "fst (passAntiSpamChecks 10000 (fresh_state pills_fields)) = False" by code_simp
  have a: "\<not> honeypot_filled (formFields (fresh_state pills_fields))" by code_simp
  have b: "fst (checkRateLimit 10000 (fresh_state pills_fields))" by code_simp
  have c: "containsSuspiciousContent (formFields (fresh_state pills_fields))" by code_simp
  have d: "submissionHistory (fresh_state pills_fields) = []" by (simp add: fresh_state_def)
  have e: "inserted (fresh_state pills_fields) = []" by (simp add: fresh_state_def)
  from rejected_attempt_history [OF b1] rejected_attempt_history [OF r1]
    rejected_attempt_history [OF h] b1 b2 b3 r1 r2 r3 r4 r5 h a b c d e
  show ?thesis by (simp add: Let_def)
qed

text \<open>
  C2, as the claim states it, fails for the two gates after the rate limit: on a fresh page
  a message with a denylist word, and a clean message sent after 1.5 seconds, are both
  rejected, and both leave their timestamp in the stored history.
\<close>

theorem rejected_attempt_counterexample:
  "fst (passAntiSpamChecks 10000 (fresh_state pills_fields)) = False
   \<and> stored_history (fresh_state pills_fields) = []
   \<and> stored_history (snd (passAntiSpamChecks 10000 (fresh_state pills_fields))) = [10000]
   \<and> fst (passAntiSpamChecks 1500 (fresh_state enquiry_fields)) = False
   \<and> stored_history (fresh_state enquiry_fields) = []
   \<and> stored_history (snd (passAntiSpamChecks 1500 (fresh_state enquiry_fields))) = [1500]"
  by code_simp

subsection \<open>How a failed write is reported\<close>

lemma checkFormTiming_pass: "fst (checkFormTiming now s) \<Longrightarrow> snd (checkFormTiming now s) = s"
  by (auto simp: checkFormTiming_def Let_def split: option.splits)

lemma passAntiSpamChecks_pass:
  assumes "fst (passAntiSpamChecks now s)"
  shows "snd (passAntiSpamChecks now s) =
     s\<lparr>submissionHistory := filter (\<lambda>t. t > now - 3600000) (submissionHistory s) @ [now],
       stored_history := filter (\<lambda>t. t > now - 3600000) (submissionHistory s) @ [now]\<rparr>"
proof -
  from assms have r: "fst (checkRateLimit now s)"
    and t: "fst (checkFormTiming now (snd (checkRateLimit now s)))"
    by (auto simp: passAntiSpamChecks_unfold split: if_splits)
  from assms have "snd (passAntiSpamChecks now s) = snd (checkFormTiming now (snd (checkRateLimit now s)))"
    by (auto simp: passAntiSpamChecks_unfold split: if_splits)
  also have "\<dots> = snd (checkRateLimit now s)"
    using t by (rule checkFormTiming_pass)
  finally show ?thesis using r by (simp add: checkRateLimit_snd)
qed

lemma handleSubmit_reaches_write:
  assumes "\<not> isSubmitting s" and "fst (passAntiSpamChecks now s)"
    and "validateAllFields (formFields s)" and "supabaseClient s"
  shows "handleSubmit now settled res s =
     (let s2 = setSubmittingState True (snd (passAntiSpamChecks now s));
          s2' = s2\<lparr>inserted := inserted s2 @ [prepare_formData now s2]\<rparr>
      in setSubmittingState False
           (case res of
              Insert_ok \<Rightarrow> resetFormSafely settled (showSuccess s2')
            | Insert_error m \<Rightarrow> inner_catch (''Database error: '' @ m) settled s2'
            | Insert_threw m \<Rightarrow> inner_catch m settled s2'))"
proof -
  obtain p s1 where ps: "passAntiSpamChecks now s = (p, s1)"
    by (cases "passAntiSpamChecks now s")
  have p: "p" using assms(2) ps by simp
  have s1: "s1 = snd (passAntiSpamChecks now s)" using ps by simp
  have f: "validateAllFields (formFields s1)"
    using passAntiSpamChecks_pass [OF assms(2)] assms(3) s1 by simp
  have c: "supabaseClient (setSubmittingState True s1)"
    using passAntiSpamChecks_pass [OF assms(2)] assms(4) s1
    by (simp add: setSubmittingState_def)
  have "handleSubmit now settled res s =
     (let s2 = setSubmittingState True s1;
          s2' = s2\<lparr>inserted := inserted s2 @ [prepare_formData now s2]\<rparr>
      in setSubmittingState False
           (case res of
              Insert_ok \<Rightarrow> resetFormSafely settled (showSuccess s2')
            | Insert_error m \<Rightarrow> inner_catch (''Database error: '' @ m) settled s2'
            | Insert_threw m \<Rightarrow> inner_catch m settled s2'))"
    unfolding handleSubmit_def Let_def ps
    using assms(1) p f c by simp
  then show ?thesis using s1 by simp
qed

lemma database_error_prefix: "str_includes (''Database error: '' @ m) ''Database error''"
proof -
  have "''Database error: '' @ m = [] @ ''Database error'' @ ('': '' @ m)" by simp
  then show ?thesis unfolding str_includes_iff by blast
qed

text \<open>
  C3, as the code has it. Take a submit event that reaches the insert (the handler is idle,
  the gates and the validators pass, the client exists). If the insert resolves with an error
  object, the handler throws \<open>Database error: ...\<close> and the inner \<^verbatim>\<open>catch\<close> shows success and
  resets the form. If the insert throws an error with message \<open>m\<close>: when \<open>m\<close> contains
  \<open>Database error\<close>, \<open>Failed to fetch\<close>, \<open>NetworkError\<close> or \<open>TypeError\<close> the inner \<^verbatim>\<open>catch\<close>
  shows success and resets the form; every other error reaches the outer \<^verbatim>\<open>catch\<close>, which
  keeps the form and shows the time-out message for \<open>Request timeout\<close>, else the connection
  message for \<open>CORS\<close>, else the browser message for \<open>ReferenceError\<close>, else the error box
  with the text it already had.
\<close>

theorem write_failure_outcome:
  assumes idle: "\<not> isSubmitting s" and gates: "fst (passAntiSpamChecks now s)"
    and valid: "validateAllFields (formFields s)" and client: "supabaseClient s"
  shows "(let s' = handleSubmit now settled (Insert_error m) s
          in success_hidden s' = False \<and> error_hidden s' = True
           \<and> formFields s' = cleared_fields (formFields s) \<and> startTime s' = Some settled)
     \<and> (let s' = handleSubmit now settled (Insert_threw m) s
          in if str_includes m ''Database error'' \<or> str_includes m ''Failed to fetch''
                \<or> str_includes m ''NetworkError'' \<or> str_includes m ''TypeError''
             then success_hidden s' = False \<and> error_hidden s' = True
                \<and> formFields s' = cleared_fields (formFields s) \<and> startTime s' = Some settled
             else error_hidden s' = False \<and> success_hidden s' = True
                \<and> formFields s' = formFields s
                \<and> error_text s' =
                    (if str_includes m ''Request timeout''
                     then ''Request timed out. Please check your connection and try again.''
                     else if str_includes m ''CORS''
                     then ''Connection error. Please try again or contact us directly.''
                     else if str_includes m ''ReferenceError''
                     then ''Browser compatibility issue. Please try refreshing the page or using a different browser.''
                     else error_text s))"
proof -
  note reach = handleSubmit_reaches_write [OF idle gates valid client]
  note pass = passAntiSpamChecks_pass [OF gates]
  have a: "let s' = handleSubmit now settled (Insert_error m) s
          in success_hidden s' = False \<and> error_hidden s' = True
           \<and> formFields s' = cleared_fields (formFields s) \<and> startTime s' = Some settled"
    using database_error_prefix [of m]
    by (simp add: reach pass Let_def inner_catch_def resetFormSafely_def showSuccess_def
        setSubmittingState_def cleared_fields_def)
  have b: "let s' = handleSubmit now settled (Insert_threw m) s
          in if str_includes m ''Database error'' \<or> str_includes m ''Failed to fetch''
                \<or> str_includes m ''NetworkError'' \<or> str_includes m ''TypeError''
             then success_hidden s' = False \<and> error_hidden s' = True
                \<and> formFields s' = cleared_fields (formFields s) \<and> startTime s' = Some settled
             else error_hidden s' = False \<and> success_hidden s' = True
                \<and> formFields s' = formFields s
                \<and> error_text s' =
                    (if str_includes m ''Request timeout''
                     then ''Request timed out. Please check your connection and try again.''
                     else if str_includes m ''CORS''
                     then ''Connection error. Please try again or contact us directly.''
                     else if str_includes m ''ReferenceError''
                     then ''Browser compatibility issue. Please try refreshing the page or using a different browser.''
                     else error_text s)"
    by (simp add: reach pass Let_def inner_catch_def outer_catch_def resetFormSafely_def
        showSuccess_def showError_def setSubmittingState_def cleared_fields_def)
  from a b show ?thesis by blast
qed

lemma enquiry_passes_gates:
  "passAntiSpamChecks 10000 (fresh_state enquiry_fields)
     = (True, (fresh_state enquiry_fields)\<lparr>submissionHistory := [10000], stored_history := [10000]\<rparr>)"
  by code_simp

lemma enquiry_is_valid: "validateAllFields enquiry_fields"
  by code_simp

theorem write_failure_outcome_witness:
  "\<not> isSubmitting (fresh_state enquiry_fields)
   \<and> fst (passAntiSpamChecks 10000 (fresh_state enquiry_fields))
   \<and> validateAllFields (formFields (fresh_state enquiry_fields))
   \<and> supabaseClient (fresh_state enquiry_fields)
   \<and> success_hidden (handleSubmit 10000 10500 (Insert_error ''Request timeout'') (fresh_state enquiry_fields)) = False
   \<and> error_hidden (handleSubmit 10000 10500 (Insert_threw ''Request timeout'') (fresh_state enquiry_fields)) = False
   \<and> error_text (handleSubmit 10000 10500 (Insert_threw ''Request timeout'') (fresh_state enquiry_fields))
        = ''Request timed out. Please check your connection and try again.''"
proof -
  have h1: "\<not> isSubmitting (fresh_state enquiry_fields)" by (simp add: fresh_state_def)
  have h2: "fst (passAntiSpamChecks 10000 (fresh_state enquiry_fields))"
    by (simp add: enquiry_passes_gates)
  have h3: "validateAllFields (formFields (fresh_state enquiry_fields))"
    by (simp add: fresh_state_def enquiry_is_valid)
  have h4: "supabaseClient (fresh_state enquiry_fields)" by (simp add: fresh_state_def)
  have n: "\<not> (str_includes ''Request timeout'' ''Database error''
      \<or> str_includes ''Request timeout'' ''Failed to fetch''
      \<or> str_includes ''Request timeout'' ''NetworkError''
      \<or> str_includes ''Request timeout'' ''TypeError'')" by code_simp
  have y: "str_includes ''Request timeout'' ''Request timeout''" by code_simp
  from write_failure_outcome [OF h1 h2 h3 h4, of 10500 "''Request timeout''"] h1 h2 h3 h4 n y
  show ?thesis by (simp add: Let_def)
qed

text \<open>
  C3, as the claim states it, fails for a network failure: an insert that throws
  \<open>Failed to fetch\<close> (no \<open>Database error\<close> in the message) ends with the success box shown,
  the error box hidden and the form reset, not with the network-error message.
\<close>

theorem write_failure_counterexample:
  "\<not> str_includes ''Failed to fetch'' ''Database error''
   \<and> handleSubmit 10000 10500 (Insert_threw ''Failed to fetch'') (fresh_state enquiry_fields)
       = \<lparr>formFields = blank_fields, isSubmitting = False, submissionHistory = [10000],
          stored_history = [10000], startTime = Some 10500, supabaseClient = True,
          error_text = ''There was an error sending your message.'', error_hidden = True,
          success_hidden = False,
          inserted = [Inquiry ''Ann Lee'' None ''ann@example.org'' None
                        ''Please send me a quote for type approval.'' True False 10000 0]\<rparr>"
  by code_simp

section \<open>Properties of the consent manager\<close>

subsection \<open>Objects and the scan\<close>

lemma processGatedScripts_alt:
  "processGatedScripts s = s\<lparr>page_scripts := map (convert_if_allowed (currentConsent s)) (page_scripts s)\<rparr>"
  by (simp add: processGatedScripts_def)

lemma map_of_assign: "map_of (assign k v al) = (map_of al)(k \<mapsto> v)"
  by (induction al) (auto simp: fun_eq_iff)

lemma copy_keeps_type:
  "map_of acc ''type'' = Some t \<Longrightarrow>
   map_of (fold (\<lambda>(name, v) attrs.
                if name \<noteq> ''type'' \<and> name \<noteq> ''data-cookie-category''
                then assign name v attrs else attrs) al acc) ''type'' = Some t"
proof (induction al arbitrary: acc)
  case Nil
  then show ?case by simp
next
  case (Cons a al)
  obtain name v where a: "a = (name, v)" by (cases a)
  show ?case
    using Cons.prems by (simp add: a Cons.IH map_of_assign)
qed

lemma newScript_type: "getAttribute ''type'' (newScript el) = Some ''text/javascript''"
  by (simp add: getAttribute_def newScript_def copy_keeps_type)

lemma javascript_is_not_plain: "toLowerCase ''text/javascript'' \<noteq> ''text/plain''"
  by (simp add: toLowerCase_def)

lemma newScript_not_gated: "\<not> matches_gated (newScript el)"
  using javascript_is_not_plain by (simp add: matches_gated_def newScript_type)

lemma convert_idem: "convert_if_allowed r (convert_if_allowed r el) = convert_if_allowed r el"
  by (simp add: convert_if_allowed_def newScript_not_gated)

lemma processGatedScripts_idem: "processGatedScripts (processGatedScripts s) = processGatedScripts s"
  by (simp add: processGatedScripts_alt convert_idem)

lemma convert_denied:
  "\<not> isAllowed r ''marketing'' \<Longrightarrow> marketing_placeholder el \<Longrightarrow> convert_if_allowed r el = el"
  by (simp add: convert_if_allowed_def marketing_placeholder_def)

lemma convert_allowed:
  "isAllowed r ''marketing'' \<Longrightarrow> marketing_placeholder el \<Longrightarrow> convert_if_allowed r el = newScript el"
  by (simp add: convert_if_allowed_def marketing_placeholder_def)

lemma convert_leaves_no_marketing:
  "isAllowed r ''marketing'' \<Longrightarrow> \<not> marketing_placeholder (convert_if_allowed r el)"
  by (auto simp: convert_if_allowed_def marketing_placeholder_def newScript_not_gated)

lemma scan_consent [simp]: "currentConsent (processGatedScripts s) = currentConsent s"
  by (simp add: processGatedScripts_def)

lemma scan_length [simp]: "length (page_scripts (processGatedScripts s)) = length (page_scripts s)"
  by (simp add: processGatedScripts_def)

lemma scan_nth:
  "i < length (page_scripts s) \<Longrightarrow>
   page_scripts (processGatedScripts s) ! i = convert_if_allowed (currentConsent s) (page_scripts s ! i)"
  by (simp add: processGatedScripts_alt)

lemma loadConsent_scripts [simp]: "page_scripts (loadConsent s) = page_scripts s"
  by (simp add: loadConsent_def updateConsentUI_def split: option.splits)

lemma saveConsent_scripts [simp]: "page_scripts (saveConsent c s) = page_scripts s"
  by (simp add: saveConsent_def Let_def split: option.splits)

text \<open>Every operation is a change of the record followed by at most one scan with the
  record it leaves.\<close>

lemma step_scripts:
  "page_scripts (step op s) = page_scripts s
   \<or> page_scripts (step op s)
        = map (convert_if_allowed (currentConsent (step op s))) (page_scripts s)"
proof (cases op)
  case Init
  then show ?thesis by (simp add: init_def processGatedScripts_alt)
next
  case Load
  then show ?thesis by simp
next
  case Rescan
  then show ?thesis by (simp add: processGatedScripts_alt)
next
  case AcceptAll
  then show ?thesis by (simp add: acceptAll_def processGatedScripts_alt)
next
  case RejectNonEssential
  then show ?thesis by (simp add: rejectNonEssential_def processGatedScripts_alt)
next
  case SavePreferences
  then show ?thesis by (simp add: savePreferences_def processGatedScripts_alt)
next
  case (Update c)
  then show ?thesis by simp
next
  case (TickAnalytics b)
  then show ?thesis by simp
next
  case (TickMarketing b)
  then show ?thesis by simp
qed

lemma step_keeps_denied:
  assumes "\<not> isAllowed (currentConsent (step op s)) ''marketing''"
  shows "length (page_scripts (step op s)) = length (page_scripts s)
     \<and> (\<forall>i < length (page_scripts s). marketing_placeholder (page_scripts s ! i)
            \<longrightarrow> page_scripts (step op s) ! i = page_scripts s ! i)"
  using step_scripts [of op s] assms by (auto simp: convert_denied)

lemma run_keeps_denied:
  "marketing_denied_during ops s \<Longrightarrow>
   length (page_scripts (run ops s)) = length (page_scripts s)
     \<and> (\<forall>i < length (page_scripts s). marketing_placeholder (page_scripts s ! i)
            \<longrightarrow> page_scripts (run ops s) ! i = page_scripts s ! i)"
proof (induction ops arbitrary: s)
  case Nil
  then show ?case by simp
next
  case (Cons op ops)
  from Cons.prems have d: "\<not> isAllowed (currentConsent (step op s)) ''marketing''"
    and r: "marketing_denied_during ops (step op s)" by simp_all
  note a = step_keeps_denied [OF d]
  note b = Cons.IH [OF r]
  show ?case using a b by simp
qed

lemma map_of_spread:
  "map_of (spread a b) = map_of a ++ map_of (rev b)"
  unfolding spread_def
proof (induction b arbitrary: a)
  case Nil
  then show ?case by simp
next
  case (Cons p b)
  obtain k v where p: "p = (k, v)" by (cases p)
  have "map_of (fold (\<lambda>(k, v). assign k v) (p # b) a)
      = map_of (assign k v a) ++ map_of (rev b)"
    by (simp add: p Cons.IH)
  also have "\<dots> = map_of a ++ map_of (rev (p # b))"
    by (simp add: p map_of_assign fun_eq_iff map_add_def split: option.splits)
  finally show ?case .
qed

lemma saveConsent_record:
  "currentConsent (saveConsent c s) = spread (currentConsent s) (own_properties c)"
  by (simp add: saveConsent_def Let_def split: option.splits)

lemma accept_sets_marketing: "isAllowed (currentConsent (acceptAll s)) ''marketing''"
  by (simp add: acceptAll_def saveConsent_record isAllowed_def map_of_spread)

subsection \<open>Marketing placeholders\<close>

text \<open>
  C1. The record meant is the one the module holds in \<open>currentConsent\<close>, which is the one
  \<^verbatim>\<open>isAllowed\<close> consults (the copy in local storage follows it whenever the storage can be
  written). Along any sequence of operations (initialise, load, scan, the three buttons, an
  update through the public entry point, ticking a checkbox) during which the record never
  allows \<open>marketing\<close>, every marketing placeholder of the page stays where it is, unchanged,
  and the page keeps its length. Once the record allows \<open>marketing\<close>, a scan puts exactly one
  element in the place of each marketing placeholder: the new script, which has the type
  \<^verbatim>\<open>text/javascript\<close>, the same text, and no longer matches the selector of the scan; no
  marketing placeholder is left. Scanning twice is the same as scanning once. The record
  allows \<open>marketing\<close> after accept-all, after an update with \<open>marketing: true\<close>, and after
  save-custom with the box ticked; accept-all, which scans itself, leaves no marketing
  placeholder.
\<close>

theorem marketing_placeholder_gating:
  "(marketing_denied_during ops s \<longrightarrow>
      length (page_scripts (run ops s)) = length (page_scripts s)
      \<and> (\<forall>i < length (page_scripts s). marketing_placeholder (page_scripts s ! i)
            \<longrightarrow> page_scripts (run ops s) ! i = page_scripts s ! i))
   \<and> (isAllowed (currentConsent s) ''marketing'' \<longrightarrow>
      length (page_scripts (processGatedScripts s)) = length (page_scripts s)
      \<and> (\<forall>i < length (page_scripts s). marketing_placeholder (page_scripts s ! i)
            \<longrightarrow> page_scripts (processGatedScripts s) ! i = newScript (page_scripts s ! i))
      \<and> filter marketing_placeholder (page_scripts (processGatedScripts s)) = [])
   \<and> \<not> matches_gated (newScript el)
   \<and> getAttribute ''type'' (newScript el) = Some ''text/javascript''
   \<and> textContent (newScript el) = textContent el
   \<and> processGatedScripts (processGatedScripts s) = processGatedScripts s
   \<and> isAllowed (currentConsent (acceptAll s)) ''marketing''
   \<and> isAllowed (currentConsent (saveConsent (JObj [(''marketing'', JBool True)]) s)) ''marketing''
   \<and> (marketingCheckbox s = Some True \<longrightarrow> isAllowed (currentConsent (savePreferences s)) ''marketing'')
   \<and> filter marketing_placeholder (page_scripts (acceptAll s)) = []"
proof -
  have a: "marketing_denied_during ops s \<longrightarrow>
      length (page_scripts (run ops s)) = length (page_scripts s)
      \<and> (\<forall>i < length (page_scripts s). marketing_placeholder (page_scripts s ! i)
            \<longrightarrow> page_scripts (run ops s) ! i = page_scripts s ! i)"
    using run_keeps_denied by blast
  have none: "\<And>t. isAllowed (currentConsent t) ''marketing'' \<Longrightarrow>
      filter marketing_placeholder (page_scripts (processGatedScripts t)) = []"
    by (simp add: processGatedScripts_alt filter_empty_conv convert_leaves_no_marketing)
  have b: "isAllowed (currentConsent s) ''marketing'' \<longrightarrow>
      length (page_scripts (processGatedScripts s)) = length (page_scripts s)
      \<and> (\<forall>i < length (page_scripts s). marketing_placeholder (page_scripts s ! i)
            \<longrightarrow> page_scripts (processGatedScripts s) ! i = newScript (page_scripts s ! i))
      \<and> filter marketing_placeholder (page_scripts (processGatedScripts s)) = []"
    using none [of s] by (simp add: scan_nth convert_allowed)
  have c: "textContent (newScript el) = textContent el"
    by (simp add: newScript_def)
  have d: "isAllowed (currentConsent (saveConsent (JObj [(''marketing'', JBool True)]) s)) ''marketing''"
    by (simp add: saveConsent_record isAllowed_def map_of_spread)
  have e: "marketingCheckbox s = Some True \<longrightarrow> isAllowed (currentConsent (savePreferences s)) ''marketing''"
    by (simp add: savePreferences_def saveConsent_record isAllowed_def map_of_spread)
  have f: "filter marketing_placeholder (page_scripts (acceptAll s)) = []"
  proof -
    let ?t = "saveConsent (JObj [(''necessary'', JBool True), (''analytics'', JBool True),
                           (''marketing'', JBool True)]) s"
    have "isAllowed (currentConsent ?t) ''marketing''"
      using accept_sets_marketing [of s] by (simp add: acceptAll_def)
    from none [OF this] show ?thesis by (simp add: acceptAll_def)
  qed
  from a b c d e f newScript_not_gated newScript_type processGatedScripts_idem accept_sets_marketing
  show ?thesis by blast
qed

lemma newScript_ads:
  "newScript ads_placeholder
     = \<lparr>attributes = [(''type'', ''text/javascript''), (''id'', ''ads'')], textContent = ''loadAds()''\<rparr>"
  by code_simp

theorem marketing_placeholder_gating_witness:
  "marketing_denied_during [RejectNonEssential, TickAnalytics True, Rescan] pushed_marketing
   \<and> isAllowed (currentConsent pushed_marketing) ''marketing''
   \<and> marketingCheckbox pushed_marketing = Some True
   \<and> page_scripts pushed_marketing = [stats_placeholder, ads_placeholder]
   \<and> marketing_placeholder ads_placeholder
   \<and> page_scripts (run [RejectNonEssential, TickAnalytics True, Rescan] pushed_marketing) ! 1
        = ads_placeholder
   \<and> page_scripts (processGatedScripts pushed_marketing) ! 1 = newScript ads_placeholder
   \<and> filter marketing_placeholder (page_scripts (processGatedScripts pushed_marketing)) = []
   \<and> \<not> matches_gated (newScript ads_placeholder)
   \<and> filter marketing_placeholder (page_scripts (acceptAll pushed_marketing)) = []"
proof -
  have h1: "marketing_denied_during [RejectNonEssential, TickAnalytics True, Rescan] pushed_marketing"
    by code_simp
  have h2: "isAllowed (currentConsent pushed_marketing) ''marketing''"
    by code_simp
  have h3: "marketingCheckbox pushed_marketing = Some True"
    by code_simp
  have h4: "page_scripts pushed_marketing = [stats_placeholder, ads_placeholder]"
    by (simp add: pushed_marketing_def first_visit_def page_load_def)
  have h5: "marketing_placeholder ads_placeholder"
    by code_simp
  from marketing_placeholder_gating
    [of "[RejectNonEssential, TickAnalytics True, Rescan]" pushed_marketing ads_placeholder]
    h1 h2 h3 h4 h5
  show ?thesis by simp
qed

subsection \<open>The shape of the record\<close>

lemma map_of_rev_distinct:
  assumes "distinct (map fst xs)"
  shows "map_of (rev xs) = map_of xs"
proof (rule ext)
  fix k
  have d: "distinct (map fst (rev xs))" using assms by (simp add: rev_map [symmetric])
  show "map_of (rev xs) k = map_of xs k"
  proof (cases "map_of xs k")
    case None
    then have "k \<notin> fst ` set xs" by (simp add: map_of_eq_None_iff)
    then have "map_of (rev xs) k = None" by (simp add: map_of_eq_None_iff)
    with None show ?thesis by simp
  next
    case (Some v)
    then have "(k, v) \<in> set xs" by (rule map_of_SomeD)
    then have "(k, v) \<in> set (rev xs)" by simp
    then have "map_of (rev xs) k = Some v" using d map_of_is_SomeI by fastforce
    with Some show ?thesis by simp
  qed
qed

lemma keys_assign:
  "map fst (assign k v r) = (if k \<in> fst ` set r then map fst r else map fst r @ [k])"
  by (induction r) auto

lemma assign_new: "k \<notin> fst ` set r \<Longrightarrow> assign k v r = r @ [(k, v)]"
  by (induction r) auto

lemma assign_same: "distinct (map fst r) \<Longrightarrow> (k, v) \<in> set r \<Longrightarrow> assign k v r = r"
  by (induction r) (auto simp: rev_image_eqI)

lemma take3_assign:
  "length r \<ge> 3 \<Longrightarrow> map fst (take 3 (assign k v r)) = map fst (take 3 r)"
proof -
  assume "length r \<ge> 3"
  then have "take 3 (map fst (assign k v r)) = take 3 (map fst r)"
    by (simp add: keys_assign)
  then show ?thesis by (simp add: take_map)
qed

lemma wellformed_length: "wellformed_record r \<Longrightarrow> length r \<ge> 3"
proof -
  assume "wellformed_record r"
  then have "length (map fst (take 3 r)) = 3" by (simp add: wellformed_record_def)
  then show ?thesis by simp
qed

lemma wellformed_assign: "wellformed_record r \<Longrightarrow> wellformed_record (assign k v r)"
  using wellformed_length [of r] take3_assign [of r k v]
  by (auto simp: wellformed_record_def keys_assign)

lemma wellformed_spread: "wellformed_record r \<Longrightarrow> wellformed_record (spread r b)"
  unfolding spread_def
  by (induction b arbitrary: r) (auto simp: wellformed_assign)

lemma wellformed_initial: "wellformed_record initial_consent"
  by (simp add: wellformed_record_def initial_consent_def)

lemma fold_assign_same:
  "distinct (map fst r) \<Longrightarrow> set b \<subseteq> set r \<Longrightarrow> fold (\<lambda>(k, v) acc. assign k v acc) b r = r"
  by (induction b) (auto simp: assign_same)

lemma spread_self: "distinct (map fst r) \<Longrightarrow> spread r r = r"
  by (simp add: spread_def fold_assign_same)

lemma fold_assign_new:
  "distinct (map fst (p @ e)) \<Longrightarrow> fold (\<lambda>(k, v) acc. assign k v acc) e p = p @ e"
proof (induction e arbitrary: p)
  case Nil
  then show ?case by simp
next
  case (Cons x e)
  obtain k v where x: "x = (k, v)" by (cases x)
  from Cons.prems have k: "k \<notin> fst ` set p" by (auto simp: x)
  from Cons.prems have d: "distinct (map fst ((p @ [(k, v)]) @ e))" by (auto simp: x)
  have "fold (\<lambda>(k, v) acc. assign k v acc) (x # e) p
      = fold (\<lambda>(k, v) acc. assign k v acc) e (p @ [(k, v)])"
    using k by (simp add: x assign_new)
  also have "\<dots> = (p @ [(k, v)]) @ e" using d by (rule Cons.IH)
  finally show ?case by (simp add: x)
qed

lemma spread_initial:
  assumes "wellformed_record r"
  shows "spread initial_consent r = r"
proof -
  from wellformed_length [OF assms] obtain p1 p2 p3 e where r: "r = p1 # p2 # p3 # e"
    by (cases r; cases "tl r"; cases "tl (tl r)") auto
  obtain x y z where p: "p1 = (''necessary'', x)" "p2 = (''analytics'', y)" "p3 = (''marketing'', z)"
    using assms unfolding r wellformed_record_def by (cases p1; cases p2; cases p3) auto
  from assms have "distinct (map fst r)" by (simp add: wellformed_record_def)
  then have d: "distinct (map fst ([p1, p2, p3] @ e))" unfolding r by simp
  have "spread initial_consent r = fold (\<lambda>(k, v) acc. assign k v acc) e [p1, p2, p3]"
    by (simp add: spread_def r p initial_consent_def)
  also have "\<dots> = [p1, p2, p3] @ e" using d by (rule fold_assign_new)
  finally show ?thesis by (simp add: r)
qed

lemma saveConsent_wellformed:
  "wellformed_record (currentConsent s) \<Longrightarrow> wellformed_record (currentConsent (saveConsent c s))"
  by (simp add: saveConsent_record wellformed_spread)

lemma updateConsentUI_record [simp]: "currentConsent (updateConsentUI s) = currentConsent s"
  by (simp add: updateConsentUI_def)

lemma updateConsentUI_storage [simp]: "localStorage (updateConsentUI s) = localStorage s"
  by (simp add: updateConsentUI_def)

lemma loadConsent_storage [simp]: "localStorage (loadConsent s) = localStorage s"
  by (simp add: loadConsent_def split: option.splits)

lemma scan_storage [simp]: "localStorage (processGatedScripts s) = localStorage s"
  by (simp add: processGatedScripts_def)

text \<open>What \<^verbatim>\<open>loadConsent\<close> does to the record, by the content of the storage.\<close>

lemma loadConsent_record:
  "currentConsent (loadConsent s) =
     (if readable (localStorage s)
      then (case item (localStorage s) of
              None \<Rightarrow> currentConsent s
            | Some t \<Rightarrow> (case JSON_parse t of
                          None \<Rightarrow> currentConsent s
                        | Some v \<Rightarrow> spread (currentConsent s) (own_properties v)))
      else currentConsent s)"
  by (cases "item (localStorage s)"; cases "the (item (localStorage s))")
     (simp_all add: loadConsent_def getItem_def)

lemma loadConsent_wellformed:
  "wellformed_record (currentConsent s) \<Longrightarrow> wellformed_record (currentConsent (loadConsent s))"
  by (simp add: loadConsent_record wellformed_spread split: option.splits)

lemma step_wellformed:
  "wellformed_record (currentConsent s) \<Longrightarrow> wellformed_record (currentConsent (step op s))"
  by (cases op)
     (simp_all add: init_def acceptAll_def rejectNonEssential_def savePreferences_def
        saveConsent_wellformed loadConsent_wellformed)

subsection \<open>Saving and loading\<close>

lemma saveConsent_storage:
  "writable (localStorage s) \<Longrightarrow>
   localStorage (saveConsent c s)
     = (localStorage s)\<lparr>item := Some (JSON_stringify (JObj (currentConsent (saveConsent c s))))\<rparr>
   \<and> cookie (saveConsent c s) = Some (JSON_stringify (JObj (currentConsent (saveConsent c s))))"
  by (simp add: saveConsent_def Let_def setItem_def)

lemma saveConsent_storage_blocked:
  "\<not> writable (localStorage s) \<Longrightarrow> localStorage (saveConsent c s) = localStorage s"
  by (simp add: saveConsent_def Let_def setItem_def)

text \<open>
  C9. Take a state whose storage can be written and read and whose record has the shape
  every record of the module has. After \<^verbatim>\<open>saveConsent\<close> the storage item (and the cookie) is
  the serialised record; \<^verbatim>\<open>loadConsent\<close> on the same page, and \<^verbatim>\<open>loadConsent\<close> on a newly
  loaded page that starts from the compiled-in record, both give a record identical to the
  one saved. When the record in memory and the record passed are records of three booleans,
  the record saved is the record passed. That \<^verbatim>\<open>JSON.parse\<close> reads back what
  \<^verbatim>\<open>JSON.stringify\<close> wrote is the browser's part and is built into \<open>stored_text\<close>; what is
  proved is the part of the two merges.
\<close>

theorem consent_round_trip:
  assumes w: "writable (localStorage s)" and rd: "readable (localStorage s)"
    and wf: "wellformed_record (currentConsent s)"
  shows "item (localStorage (saveConsent c s))
           = Some (JSON_stringify (JObj (currentConsent (saveConsent c s))))
     \<and> cookie (saveConsent c s) = Some (JSON_stringify (JObj (currentConsent (saveConsent c s))))
     \<and> currentConsent (loadConsent (saveConsent c s)) = currentConsent (saveConsent c s)
     \<and> currentConsent (loadConsent (page_load (localStorage (saveConsent c s)) ck a m scripts))
           = currentConsent (saveConsent c s)
     \<and> (currentConsent s = ConsentRecord n0 a0 m0 \<and> c = JObj (ConsentRecord n1 a1 m1)
          \<longrightarrow> currentConsent (saveConsent c s) = ConsentRecord n1 a1 m1)"
proof -
  let ?saved = "currentConsent (saveConsent c s)"
  have wf': "wellformed_record ?saved" using wf by (rule saveConsent_wellformed)
  then have d: "distinct (map fst ?saved)" by (simp add: wellformed_record_def)
  note st = saveConsent_storage [OF w, of c]
  have a: "item (localStorage (saveConsent c s)) = Some (JSON_stringify (JObj ?saved))"
    using st by simp
  have r: "readable (localStorage (saveConsent c s))" using st rd by simp
  have b: "currentConsent (loadConsent (saveConsent c s)) = ?saved"
    using a r d by (simp add: loadConsent_record JSON_stringify_def spread_self)
  have e: "currentConsent (loadConsent (page_load (localStorage (saveConsent c s)) ck a m scripts))
           = ?saved"
    using a r wf' by (simp add: loadConsent_record page_load_def JSON_stringify_def spread_initial)
  have f: "currentConsent s = ConsentRecord n0 a0 m0 \<and> c = JObj (ConsentRecord n1 a1 m1)
          \<longrightarrow> ?saved = ConsentRecord n1 a1 m1"
    by (simp add: saveConsent_record ConsentRecord_def spread_def)
  from a st b e f show ?thesis by simp
qed

theorem consent_round_trip_witness:
  "writable (localStorage first_visit) \<and> readable (localStorage first_visit)
   \<and> wellformed_record (currentConsent first_visit)
   \<and> currentConsent first_visit = ConsentRecord True False False
   \<and> item (localStorage (saveConsent (JObj (ConsentRecord True True False)) first_visit))
        = Some (JSON_text (JObj (ConsentRecord True True False)))
   \<and> currentConsent (loadConsent (saveConsent (JObj (ConsentRecord True True False)) first_visit))
        = ConsentRecord True True False
   \<and> currentConsent (loadConsent
         (page_load (localStorage (saveConsent (JObj (ConsentRecord True True False)) first_visit))
            None None None []))
        = ConsentRecord True True False"
proof -
  have h1: "writable (localStorage first_visit)" by code_simp
  have h2: "readable (localStorage first_visit)" by code_simp
  have h3: "wellformed_record (currentConsent first_visit)" by code_simp
  have h4: "currentConsent first_visit = ConsentRecord True False False" by code_simp
  from consent_round_trip [OF h1 h2 h3, of "JObj (ConsentRecord True True False)" None None None "[]"
      True False False True True False] h1 h2 h3 h4
  show ?thesis by (simp add: JSON_stringify_def)
qed

subsection \<open>Loading what the storage holds\<close>

text \<open>
  C8, as the code has it. Start from the compiled-in record, as the script does. If the
  storage cannot be read, holds no item, or holds a string that \<^verbatim>\<open>JSON.parse\<close> rejects (the
  empty string is skipped before it is parsed), then \<^verbatim>\<open>loadConsent\<close>, and \<^verbatim>\<open>init\<close> which calls
  it, leave the record equal to the compiled-in default: \<open>necessary\<close> allowed, \<open>analytics\<close>
  and \<open>marketing\<close> not. The same holds for a string that parses to a value without
  properties (\<^verbatim>\<open>null\<close>, a boolean, a number). Every other string that parses is merged over the
  default without a check of its shape: the record is the default with the properties of the
  parsed value assigned over it, so a category that the value does not name keeps its
  default and whatever the value carries is taken as it is.
\<close>

theorem load_missing_or_corrupt:
  assumes start: "currentConsent s = initial_consent"
  shows "((\<not> readable (localStorage s)
           \<or> (case item (localStorage s) of None \<Rightarrow> True | Some t \<Rightarrow> JSON_parse t = None))
          \<longrightarrow> currentConsent (loadConsent s) = initial_consent
            \<and> currentConsent (init s) = initial_consent
            \<and> isAllowed (currentConsent (loadConsent s)) ''necessary''
            \<and> \<not> isAllowed (currentConsent (loadConsent s)) ''analytics''
            \<and> \<not> isAllowed (currentConsent (loadConsent s)) ''marketing'')
     \<and> (item (localStorage s) = Some (JSON_text v) \<and> own_properties v = []
          \<longrightarrow> currentConsent (loadConsent s) = initial_consent)
     \<and> (item (localStorage s) = Some (JSON_text v) \<and> map_of (rev (own_properties v)) k = None
          \<longrightarrow> map_of (currentConsent (loadConsent s)) k = map_of initial_consent k)
     \<and> (readable (localStorage s) \<and> item (localStorage s) = Some (JSON_text v)
          \<longrightarrow> currentConsent (loadConsent s) = spread initial_consent (own_properties v))"
proof -
  have m: "readable (localStorage s) \<and> item (localStorage s) = Some (JSON_text v)
          \<longrightarrow> currentConsent (loadConsent s) = spread initial_consent (own_properties v)"
    using start by (simp add: loadConsent_record)
  have i: "currentConsent (init s) = currentConsent (loadConsent s) \<or> currentConsent (init s) = currentConsent s"
    by (simp add: init_def)
  have a: "(\<not> readable (localStorage s)
           \<or> (case item (localStorage s) of None \<Rightarrow> True | Some t \<Rightarrow> JSON_parse t = None))
          \<longrightarrow> currentConsent (loadConsent s) = initial_consent"
    using start by (auto simp: loadConsent_record split: option.splits)
  have al: "isAllowed initial_consent ''necessary'' \<and> \<not> isAllowed initial_consent ''analytics''
      \<and> \<not> isAllowed initial_consent ''marketing''"
    by (simp add: isAllowed_def initial_consent_def)
  have b: "item (localStorage s) = Some (JSON_text v) \<and> own_properties v = []
          \<longrightarrow> currentConsent (loadConsent s) = initial_consent"
    using start by (simp add: loadConsent_record spread_def)
  have c: "item (localStorage s) = Some (JSON_text v) \<and> map_of (rev (own_properties v)) k = None
          \<longrightarrow> map_of (currentConsent (loadConsent s)) k = map_of initial_consent k"
    using start by (simp add: loadConsent_record map_of_spread map_add_def)
  from a b c i al m start show ?thesis by auto
qed

theorem load_missing_or_corrupt_witness:
  "currentConsent garbled_visit = initial_consent
   \<and> readable (localStorage garbled_visit)
   \<and> (case item (localStorage garbled_visit) of None \<Rightarrow> True | Some t \<Rightarrow> JSON_parse t = None)
   \<and> currentConsent (loadConsent garbled_visit)
        = [(''necessary'', JBool True), (''analytics'', JBool False), (''marketing'', JBool False)]
   \<and> currentConsent (init garbled_visit) = initial_consent
   \<and> item (localStorage null_visit) = Some (JSON_text JNull) \<and> own_properties JNull = []
   \<and> currentConsent (loadConsent null_visit) = initial_consent
   \<and> readable (localStorage text_visit)
   \<and> item (localStorage text_visit) = Some (JSON_text (JStr ''yes''))
   \<and> map_of (rev (own_properties (JStr ''yes''))) ''marketing'' = None
   \<and> map_of (currentConsent (loadConsent text_visit)) ''marketing'' = Some (JBool False)
   \<and> currentConsent (loadConsent text_visit)
        = [(''necessary'', JBool True), (''analytics'', JBool False), (''marketing'', JBool False),
           (''0'', JStr ''y''), (''1'', JStr ''e''), (''2'', JStr ''s'')]"
proof -
  have g1: "currentConsent garbled_visit = initial_consent" by code_simp
  have g2: "readable (localStorage garbled_visit)" by code_simp
  have g3: "case item (localStorage garbled_visit) of None \<Rightarrow> True | Some t \<Rightarrow> JSON_parse t = None"
    by code_simp
  have n1: "currentConsent null_visit = initial_consent" by code_simp
  have n2: "item (localStorage null_visit) = Some (JSON_text JNull)" by code_simp
  have t0: "readable (localStorage text_visit)" by code_simp
  have t1: "currentConsent text_visit = initial_consent" by code_simp
  have t2: "item (localStorage text_visit) = Some (JSON_text (JStr ''yes''))" by code_simp
  have t3: "map_of (rev (own_properties (JStr ''yes''))) ''marketing'' = None" by code_simp
  have t4: "spread initial_consent (own_properties (JStr ''yes''))
        = [(''necessary'', JBool True), (''analytics'', JBool False), (''marketing'', JBool False),
           (''0'', JStr ''y''), (''1'', JStr ''e''), (''2'', JStr ''s'')]"
    by code_simp
  have d: "map_of initial_consent ''marketing'' = Some (JBool False)"
    by (simp add: initial_consent_def)
  from load_missing_or_corrupt [OF g1, of JNull "''marketing''"]
    load_missing_or_corrupt [OF n1, of JNull "''marketing''"]
    load_missing_or_corrupt [OF t1, of "JStr ''yes''" "''marketing''"]
    g1 g2 g3 n2 t0 t2 t3 t4 d
  show ?thesis by (simp add: initial_consent_def)
qed

text \<open>
  C8, as the claim states it, fails for stored text that parses but is not a record of three
  booleans. The stored object with \<open>analytics: "no"\<close> and \<open>marketing: 1\<close> is merged as it is:
  the record differs from the default, both checkboxes come out ticked, and pressing
  save-custom then allows \<open>marketing\<close>. The stored string \<open>"yes"\<close> leaves the three categories
  at their defaults but adds its three characters as properties.
\<close>

theorem load_missing_or_corrupt_counterexample:
  "currentConsent mistyped_visit = initial_consent
   \<and> item (localStorage mistyped_visit)
        = Some (JSON_text (JObj [(''analytics'', JStr ''no''), (''marketing'', JNum 1)]))
   \<and> currentConsent (loadConsent mistyped_visit)
        = [(''necessary'', JBool True), (''analytics'', JStr ''no''), (''marketing'', JNum 1)]
   \<and> currentConsent (loadConsent mistyped_visit) \<noteq> initial_consent
   \<and> analyticsCheckbox (loadConsent mistyped_visit) = Some True
   \<and> marketingCheckbox (loadConsent mistyped_visit) = Some True
   \<and> isAllowed (currentConsent (run [Init, SavePreferences] mistyped_visit)) ''marketing''
   \<and> currentConsent (loadConsent text_visit) \<noteq> initial_consent"
  by code_simp

subsection \<open>The category \<open>necessary\<close>\<close>

lemma spread_necessary:
  assumes "map_of r ''necessary'' = Some (JBool True)" and "keeps_necessary c"
  shows "map_of (spread r (own_properties c)) ''necessary'' = Some (JBool True)"
  using assms
  by (simp add: map_of_spread map_add_def keeps_necessary_def split: option.splits)

lemma wellformed_keeps_necessary:
  assumes "wellformed_record r" and "map_of r ''necessary'' = Some (JBool True)"
  shows "keeps_necessary (JObj r)"
proof -
  from assms(1) have "distinct (map fst r)" by (simp add: wellformed_record_def)
  then have "map_of (rev r) = map_of r" by (rule map_of_rev_distinct)
  then show ?thesis using assms(2) by (simp add: keeps_necessary_def)
qed

lemma saveConsent_necessary:
  assumes wf: "wellformed_record (currentConsent s)"
    and n: "map_of (currentConsent s) ''necessary'' = Some (JBool True)"
    and st: "stored_keeps_necessary (localStorage s)"
    and c: "keeps_necessary c"
  shows "map_of (currentConsent (saveConsent c s)) ''necessary'' = Some (JBool True)
     \<and> stored_keeps_necessary (localStorage (saveConsent c s))"
proof -
  have a: "map_of (currentConsent (saveConsent c s)) ''necessary'' = Some (JBool True)"
    using spread_necessary [OF n c] by (simp add: saveConsent_record)
  have k: "keeps_necessary (JObj (currentConsent (saveConsent c s)))"
    using wellformed_keeps_necessary [OF saveConsent_wellformed [OF wf] a] .
  have b: "stored_keeps_necessary (localStorage (saveConsent c s))"
  proof (cases "writable (localStorage s)")
    case True
    then show ?thesis
      using saveConsent_storage [OF True, of c] k
      by (simp add: stored_keeps_necessary_def JSON_stringify_def)
  next
    case False
    then show ?thesis using st by (simp add: saveConsent_storage_blocked)
  qed
  from a b show ?thesis by simp
qed

lemma loadConsent_necessary:
  assumes n: "map_of (currentConsent s) ''necessary'' = Some (JBool True)"
    and st: "stored_keeps_necessary (localStorage s)"
  shows "map_of (currentConsent (loadConsent s)) ''necessary'' = Some (JBool True)"
proof (cases "readable (localStorage s)")
  case False
  then show ?thesis using n by (simp add: loadConsent_record)
next
  case True
  show ?thesis
  proof (cases "item (localStorage s)")
    case None
    then show ?thesis using n True by (simp add: loadConsent_record)
  next
    case (Some t)
    show ?thesis
    proof (cases "JSON_parse t")
      case None
      then show ?thesis using n True Some by (simp add: loadConsent_record)
    next
      case (Some v)
      with \<open>item (localStorage s) = Some t\<close> st have "keeps_necessary v"
        by (simp add: stored_keeps_necessary_def)
      from spread_necessary [OF n this] show ?thesis
        using True Some \<open>item (localStorage s) = Some t\<close> by (simp add: loadConsent_record)
    qed
  qed
qed

lemma button_value_keeps_necessary:
  "keeps_necessary (JObj [(''necessary'', JBool True), (''analytics'', JBool a), (''marketing'', JBool m)])"
  by (simp add: keeps_necessary_def)

lemma button_sets_necessary:
  "map_of (spread r [(''necessary'', JBool True), (''analytics'', JBool a), (''marketing'', JBool m)])
     ''necessary'' = Some (JBool True)"
  by (simp add: map_of_spread)

lemma step_necessary:
  assumes wf: "wellformed_record (currentConsent s)"
    and n: "map_of (currentConsent s) ''necessary'' = Some (JBool True)"
    and st: "stored_keeps_necessary (localStorage s)"
    and ok: "op_keeps_necessary op"
  shows "map_of (currentConsent (step op s)) ''necessary'' = Some (JBool True)
     \<and> stored_keeps_necessary (localStorage (step op s))"
proof (cases op)
  case Init
  then show ?thesis using n st loadConsent_necessary [OF n st] by (simp add: init_def)
next
  case Load
  then show ?thesis using st loadConsent_necessary [OF n st] by simp
next
  case Rescan
  then show ?thesis using n st by simp
next
  case AcceptAll
  then show ?thesis
    using saveConsent_necessary [OF wf n st button_value_keeps_necessary [of True True]]
    by (simp add: acceptAll_def)
next
  case RejectNonEssential
  then show ?thesis
    using saveConsent_necessary [OF wf n st button_value_keeps_necessary [of False False]]
    by (simp add: rejectNonEssential_def)
next
  case SavePreferences
  then show ?thesis
    using saveConsent_necessary [OF wf n st button_value_keeps_necessary]
    by (simp add: savePreferences_def)
next
  case (Update c)
  then show ?thesis using saveConsent_necessary [OF wf n st] ok by simp
next
  case (TickAnalytics b)
  then show ?thesis using n st by simp
next
  case (TickMarketing b)
  then show ?thesis using n st by simp
qed

lemma run_necessary:
  "wellformed_record (currentConsent s) \<Longrightarrow>
   map_of (currentConsent s) ''necessary'' = Some (JBool True) \<Longrightarrow>
   stored_keeps_necessary (localStorage s) \<Longrightarrow>
   list_all op_keeps_necessary ops \<Longrightarrow>
   map_of (currentConsent (run ops s)) ''necessary'' = Some (JBool True)"
proof (induction ops arbitrary: s)
  case Nil
  then show ?case by simp
next
  case (Cons op ops)
  from Cons.prems have ok: "op_keeps_necessary op" and rest: "list_all op_keeps_necessary ops"
    by simp_all
  note s1 = step_necessary [OF Cons.prems(1) Cons.prems(2) Cons.prems(3) ok]
  have "map_of (currentConsent (run ops (step op s))) ''necessary'' = Some (JBool True)"
    using Cons.IH [OF step_wellformed [OF Cons.prems(1)] _ _ rest] s1 by blast
  then show ?case by simp
qed

text \<open>
  C4, as the code has it. \<^verbatim>\<open>isAllowed\<close> answers true for \<open>necessary\<close> whatever the record holds.
  Accept-all, reject-non-essential and save-custom write \<open>necessary: true\<close> into the record
  from any state. Load and the public update entry point merge whatever they are given: the
  record keeps \<open>necessary = true\<close> along every sequence of operations that starts from the
  compiled-in record, provided the value persisted at the start and the values pushed through
  update do not themselves carry a \<open>necessary\<close> property other than \<open>true\<close>.
\<close>

theorem necessary_category:
  "isAllowed r ''necessary''
   \<and> map_of (currentConsent (acceptAll s)) ''necessary'' = Some (JBool True)
   \<and> map_of (currentConsent (rejectNonEssential s)) ''necessary'' = Some (JBool True)
   \<and> map_of (currentConsent (savePreferences s)) ''necessary'' = Some (JBool True)
   \<and> (currentConsent s = initial_consent \<and> stored_keeps_necessary (localStorage s)
        \<and> list_all op_keeps_necessary ops
      \<longrightarrow> map_of (currentConsent (run ops s)) ''necessary'' = Some (JBool True))"
proof -
  have a: "isAllowed r ''necessary''" by (simp add: isAllowed_def)
  have b: "map_of (currentConsent (acceptAll s)) ''necessary'' = Some (JBool True)"
    by (simp add: acceptAll_def saveConsent_record button_sets_necessary)
  have c: "map_of (currentConsent (rejectNonEssential s)) ''necessary'' = Some (JBool True)"
    by (simp add: rejectNonEssential_def saveConsent_record button_sets_necessary)
  have d: "map_of (currentConsent (savePreferences s)) ''necessary'' = Some (JBool True)"
    by (simp add: savePreferences_def saveConsent_record button_sets_necessary)
  have e: "currentConsent s = initial_consent \<and> stored_keeps_necessary (localStorage s)
        \<and> list_all op_keeps_necessary ops
      \<longrightarrow> map_of (currentConsent (run ops s)) ''necessary'' = Some (JBool True)"
  proof
    assume h: "currentConsent s = initial_consent \<and> stored_keeps_necessary (localStorage s)
        \<and> list_all op_keeps_necessary ops"
    then have wf: "wellformed_record (currentConsent s)" using wellformed_initial by simp
    from h have n: "map_of (currentConsent s) ''necessary'' = Some (JBool True)"
      by (simp add: initial_consent_def)
    from run_necessary [OF wf n] h
    show "map_of (currentConsent (run ops s)) ''necessary'' = Some (JBool True)" by blast
  qed
  from a b c d e show ?thesis by blast
qed

theorem necessary_category_witness:
  "currentConsent first_visit = initial_consent
   \<and> stored_keeps_necessary (localStorage first_visit)
   \<and> list_all op_keeps_necessary
        [Init, Update (JObj [(''analytics'', JBool True)]), RejectNonEssential, TickMarketing True,
         SavePreferences, Load]
   \<and> map_of (currentConsent (run
        [Init, Update (JObj [(''analytics'', JBool True)]), RejectNonEssential, TickMarketing True,
         SavePreferences, Load] first_visit)) ''necessary'' = Some (JBool True)
   \<and> isAllowed (currentConsent first_visit) ''necessary''
   \<and> map_of (currentConsent (acceptAll first_visit)) ''necessary'' = Some (JBool True)"
proof -
  have h1: "currentConsent first_visit = initial_consent" by code_simp
  have h2: "stored_keeps_necessary (localStorage first_visit)" by code_simp
  have h3: "list_all op_keeps_necessary
        [Init, Update (JObj [(''analytics'', JBool True)]), RejectNonEssential, TickMarketing True,
         SavePreferences, Load]" by code_simp
  from necessary_category [of "currentConsent first_visit" first_visit
      "[Init, Update (JObj [(''analytics'', JBool True)]), RejectNonEssential, TickMarketing True,
         SavePreferences, Load]"] h1 h2 h3
  show ?thesis by blast
qed

text \<open>
  C4, as the claim states it, fails for the two operations that merge what they are given:
  an update with \<open>necessary: false\<close>, and a load of a persisted record with
  \<open>necessary: false\<close>, both leave \<open>necessary = false\<close> in the record in memory.
\<close>

theorem necessary_category_counterexample:
  "map_of (currentConsent (run [Init, Update (JObj [(''necessary'', JBool False)])] first_visit))
      ''necessary'' = Some (JBool False)
   \<and> map_of (currentConsent (run [Init]
        (page_load \<lparr>item = Some (JSON_text (JObj [(''necessary'', JBool False)])),
                    readable = True, writable = True\<rparr> None None None [])))
      ''necessary'' = Some (JBool False)"
  by code_simp

end
